theory Spec2Isabelle
  imports Main "HOL-Library.Word" "HOL-Library.Sublist"
begin

section \<open>Platform constants and error numbers\<close>

text \<open>
  The constants below are declared in headers that are not part of the translated sources
  (\<^verbatim>\<open>private/android_filesystem_config.h\<close>, \<^verbatim>\<open>log/log.h\<close>,
  \<^verbatim>\<open>private/android_logger.h\<close>). They are taken as parameters: every function of the
  client library receives a record of type \<open>platform\<close>, and every theorem holds for all
  values of its fields unless it says otherwise. \<open>android\<close> is the instance with the
  values of the Android platform, used to evaluate the functions on concrete inputs.
\<close>

record platform =
  AID_ROOT :: nat
  AID_SYSTEM :: nat
  AID_LOG :: nat
  AID_LOGD :: nat
  AID_SECURITY_LOG_WRITER :: nat
  LOGGER_ENTRY_MAX_PAYLOAD :: nat
  sizeof_header :: nat         \<comment> \<open>\<^verbatim>\<open>sizeof(android_log_header_t)\<close>\<close>
  sizeof_event_int :: nat      \<comment> \<open>\<^verbatim>\<open>sizeof(android_log_event_int_t)\<close>\<close>
  LOG_ID_DEFAULT_value :: int  \<comment> \<open>the number of the enumerator \<^verbatim>\<open>LOG_ID_DEFAULT\<close>\<close>

definition android :: platform where
  "android = \<lparr> AID_ROOT = 0, AID_SYSTEM = 1000, AID_LOG = 1007, AID_LOGD = 1036,
               AID_SECURITY_LOG_WRITER = 1091, LOGGER_ENTRY_MAX_PAYLOAD = 4068,
               sizeof_header = 11, sizeof_event_int = 9,
               LOG_ID_DEFAULT_value = 0x7FFFFFFF \<rparr>"

text \<open>
  \<^verbatim>\<open>errno\<close> values are positive. The type lists the Linux error numbers the modelled calls
  can set; \<open>errno_num\<close> gives the number the C code negates.
\<close>

datatype errno =
    EPERM | ENOENT | EINTR | EIO | EBADF | EAGAIN | ENOMEM | EACCES | EFAULT | EINVAL
  | ENFILE | EMFILE | EPIPE | ETIME | ENOTSOCK | EDESTADDRREQ | EMSGSIZE | ECONNRESET
  | ENOBUFS | EISCONN | ENOTCONN | ECONNREFUSED

fun errno_num :: "errno \<Rightarrow> int" where
  "errno_num EPERM = 1"
| "errno_num ENOENT = 2"
| "errno_num EINTR = 4"
| "errno_num EIO = 5"
| "errno_num EBADF = 9"
| "errno_num EAGAIN = 11"
| "errno_num ENOMEM = 12"
| "errno_num EACCES = 13"
| "errno_num EFAULT = 14"
| "errno_num EINVAL = 22"
| "errno_num ENFILE = 23"
| "errno_num EMFILE = 24"
| "errno_num EPIPE = 32"
| "errno_num ETIME = 62"
| "errno_num ENOTSOCK = 88"
| "errno_num EDESTADDRREQ = 89"
| "errno_num EMSGSIZE = 90"
| "errno_num ECONNRESET = 104"
| "errno_num ENOBUFS = 105"
| "errno_num EISCONN = 106"
| "errno_num ENOTCONN = 107"
| "errno_num ECONNREFUSED = 111"

text \<open>
  The outcome of one system call: \<open>Ok n\<close> is the non-negative return value \<open>n\<close>,
  \<open>Failed e\<close> is the return value \<open>-1\<close> with \<^verbatim>\<open>errno\<close> set to \<open>e\<close>.
\<close>

datatype 'a sys_result = Ok 'a | Failed errno

text \<open>
  \<^verbatim>\<open>TEMP_FAILURE_RETRY(call)\<close> repeats the call while it fails with \<^verbatim>\<open>EINTR\<close>. The kernel's
  answers are a script, a list of outcomes consumed in call order; the macro returns the first
  outcome that is not an \<^verbatim>\<open>EINTR\<close> failure together with the rest of the script, and \<open>None\<close>
  when the script ends before such an outcome (the loop has not returned).
\<close>

fun TEMP_FAILURE_RETRY :: "'a sys_result list \<Rightarrow> ('a sys_result \<times> 'a sys_result list) option" where
  "TEMP_FAILURE_RETRY [] = None"
| "TEMP_FAILURE_RETRY (r # rs) =
     (if r = Failed EINTR then TEMP_FAILURE_RETRY rs else Some (r, rs))"

text \<open>The outcomes of a script that end a \<^verbatim>\<open>TEMP_FAILURE_RETRY\<close> loop.\<close>

definition answers :: "'a sys_result list \<Rightarrow> 'a sys_result list" where
  "answers script = filter (\<lambda>r. r \<noteq> Failed EINTR) script"

section \<open>liblog/logd\_writer.cpp\<close>

datatype log_id_t =
    LOG_ID_MAIN | LOG_ID_RADIO | LOG_ID_EVENTS | LOG_ID_SYSTEM | LOG_ID_CRASH
  | LOG_ID_STATS | LOG_ID_SECURITY | LOG_ID_KERNEL | LOG_ID_DEFAULT
  | LOG_ID_OTHER nat   \<comment> \<open>any value that is none of the enumerators\<close>

record timespec =
  tv_sec :: int
  tv_nsec :: int

text \<open>
  \<^verbatim>\<open>log_time\<close> and the packed \<^verbatim>\<open>android_log_header_t\<close>: an 8-bit id, a 16-bit tid and two
  32-bit fields for the time. A value stored in a field is cut to the width of the field.
\<close>

record log_time =
  lt_sec :: "32 word"     \<comment> \<open>the field \<^verbatim>\<open>tv_sec\<close>\<close>
  lt_nsec :: "32 word"    \<comment> \<open>the field \<^verbatim>\<open>tv_nsec\<close>\<close>

record android_log_header_t =
  hdr_id :: "8 word"
  hdr_tid :: "16 word"
  hdr_realtime :: log_time

text \<open>
  Modelled from the spec: the enumerators of \<^verbatim>\<open>log_id_t\<close> are declared in a header that is not
  part of the translated sources; their numbers are those of the ingest datagram format
  (section 6 of the specification: 0 main, 1 radio, 2 events, 3 system, 4 crash, 5 stats,
  6 security, 7 kernel). The number of \<^verbatim>\<open>LOG_ID_DEFAULT\<close> is a parameter, and
  \<open>LOG_ID_OTHER n\<close> is the number \<open>n\<close>.
\<close>

fun log_id_value :: "int \<Rightarrow> log_id_t \<Rightarrow> int" where
  "log_id_value d LOG_ID_MAIN = 0"
| "log_id_value d LOG_ID_RADIO = 1"
| "log_id_value d LOG_ID_EVENTS = 2"
| "log_id_value d LOG_ID_SYSTEM = 3"
| "log_id_value d LOG_ID_CRASH = 4"
| "log_id_value d LOG_ID_STATS = 5"
| "log_id_value d LOG_ID_SECURITY = 6"
| "log_id_value d LOG_ID_KERNEL = 7"
| "log_id_value d LOG_ID_DEFAULT = d"
| "log_id_value d (LOG_ID_OTHER n) = int n"

text \<open>
  Bytes are values of type \<open>char\<close>. An \<^verbatim>\<open>iovec\<close> is modelled by the bytes it designates:
  \<^verbatim>\<open>iov_len\<close> is the length of the list, and shortening \<^verbatim>\<open>iov_len\<close> to \<open>n\<close> is \<open>take n\<close>.
  The lengths are those of buffers in memory, so the \<^verbatim>\<open>size_t\<close> sums of the code are sums of
  natural numbers.
\<close>

type_synonym iovec = "char list"

text \<open>
  What follows the header in the array handed to \<^verbatim>\<open>writev\<close>: either the
  \<^verbatim>\<open>android_log_event_int_t\<close> that reports dropped messages (tag \<^verbatim>\<open>LIBLOG_LOG_TAG\<close>, type
  \<^verbatim>\<open>EVENT_TYPE_INT\<close>, \<^verbatim>\<open>payload.data\<close> the snapshot), or the caller's iovecs.
\<close>

datatype body = Dropped_event "32 word" | Iov "iovec list"

record dgram =
  hdr :: android_log_header_t
  payload :: body

text \<open>The values the process reads from its environment.\<close>

record process_env =
  getuid :: nat
  geteuid :: nat
  getgid :: nat
  getegid :: nat
  getgroups :: "nat list"            \<comment> \<open>the supplementary groups\<close>
  calloc_ok :: bool                  \<comment> \<open>whether \<^verbatim>\<open>calloc\<close> returns memory\<close>
  gettid :: nat
  clock_realtime :: timespec         \<comment> \<open>\<^verbatim>\<open>clock_gettime(CLOCK_REALTIME)\<close>\<close>
  BlockingSocket :: int              \<comment> \<open>\<^verbatim>\<open>LogdSocket::BlockingSocket().sock()\<close>\<close>
  NonBlockingSocket :: int           \<comment> \<open>\<^verbatim>\<open>LogdSocket::NonBlockingSocket().sock()\<close>\<close>
  liblog_loggable :: bool
    \<comment> \<open>\<^verbatim>\<open>__android_log_is_loggable_len(ANDROID_LOG_INFO, "liblog", 6, ANDROID_LOG_VERBOSE)\<close>\<close>
  android_log_security :: bool       \<comment> \<open>\<^verbatim>\<open>__android_log_security()\<close>\<close>

text \<open>
  The state the writer changes: the static counter \<^verbatim>\<open>dropped\<close> (an \<^verbatim>\<open>atomic_int\<close>, 32 bits,
  wrapping), the script of the kernel's answers still to come, the \<^verbatim>\<open>writev\<close> calls that have
  returned (the datagram submitted and the outcome), and the calls made to \<^verbatim>\<open>PmsgWrite\<close>.
\<close>

record liblog_state =
  dropped :: "32 word"
  syscalls :: "nat sys_result list"
  writes :: "(dgram \<times> nat sys_result) list"
  pmsg :: "(log_id_t \<times> timespec \<times> iovec list) list"

definition writev :: "liblog_state \<Rightarrow> dgram \<Rightarrow> (nat sys_result \<times> liblog_state) option" where
  "writev st d =
     (case TEMP_FAILURE_RETRY (syscalls st) of
        None \<Rightarrow> None
      | Some (r, rest) \<Rightarrow> Some (r, st\<lparr>syscalls := rest, writes := writes st @ [(d, r)]\<rparr>))"

text \<open>\<^verbatim>\<open>LogdSocket::Reconnect\<close>: one \<^verbatim>\<open>connect\<close> under \<^verbatim>\<open>TEMP_FAILURE_RETRY\<close>, its result ignored.\<close>

definition Reconnect :: "liblog_state \<Rightarrow> liblog_state option" where
  "Reconnect st =
     (case TEMP_FAILURE_RETRY (syscalls st) of
        None \<Rightarrow> None
      | Some (r, rest) \<Rightarrow> Some (st\<lparr>syscalls := rest\<rparr>))"

text \<open>
  Lines 172--183, the loop that copies the caller's iovecs behind the header. \<open>payloadSize\<close>
  is the running total before the iovec at the head of the list; the result is
  \<^verbatim>\<open>newVec[headerLength .. i)\<close>.
\<close>

fun fill_newVec :: "platform \<Rightarrow> nat \<Rightarrow> iovec list \<Rightarrow> iovec list" where
  "fill_newVec K payloadSize [] = []"
| "fill_newVec K payloadSize (v # vs) =
     (let payloadSize' = payloadSize + length v in
      if payloadSize' > LOGGER_ENTRY_MAX_PAYLOAD K then
        (let iov_len = length v - (payloadSize' - LOGGER_ENTRY_MAX_PAYLOAD K) in
         if iov_len \<noteq> 0 then [take iov_len v] else [])
      else v # fill_newVec K payloadSize' vs)"

text \<open>
  Lines 144--146 and 170: the header of the record. \<^verbatim>\<open>gettid()\<close>, \<^verbatim>\<open>ts->tv_sec\<close> and
  \<^verbatim>\<open>ts->tv_nsec\<close> are stored in fields of 16 and 32 bits, the partition in one of 8 bits.
\<close>

definition log_id_byte :: "platform \<Rightarrow> log_id_t \<Rightarrow> 8 word" where
  "log_id_byte K logId = of_int (log_id_value (LOG_ID_DEFAULT_value K) logId)"

definition make_header ::
  "platform \<Rightarrow> process_env \<Rightarrow> log_id_t \<Rightarrow> timespec \<Rightarrow> android_log_header_t" where
  "make_header K env logId ts =
     \<lparr>hdr_id = log_id_byte K logId, hdr_tid = of_nat (gettid env),
      hdr_realtime = \<lparr>lt_sec = of_int (tv_sec ts), lt_nsec = of_int (tv_nsec ts)\<rparr>\<rparr>"

text \<open>
  Lines 151--168: the counter has been exchanged for 0 and \<open>snapshot\<close> holds its old value.
  A non-zero snapshot is reported when the tag \<^verbatim>\<open>liblog\<close> is loggable, and added back when the
  report was not written in full.
\<close>

definition report_dropped ::
  "platform \<Rightarrow> process_env \<Rightarrow> liblog_state \<Rightarrow> android_log_header_t \<Rightarrow> 32 word
     \<Rightarrow> liblog_state option" where
  "report_dropped K env st header snapshot =
     (if snapshot \<noteq> 0 \<and> liblog_loggable env then
        (case writev st \<lparr>hdr = header\<lparr>hdr_id := log_id_byte K LOG_ID_EVENTS\<rparr>,
                         payload = Dropped_event snapshot\<rparr> of
           None \<Rightarrow> None
         | Some (ret, st') \<Rightarrow>
             if ret \<noteq> Ok (sizeof_header K + sizeof_event_int K)
             then Some (st'\<lparr>dropped := dropped st' + snapshot\<rparr>)
             else Some st')
      else Some st)"

text \<open>
  Lines 187--192: the record is written; any failure but \<^verbatim>\<open>EAGAIN\<close> reconnects and writes once
  more.
\<close>

definition write_record ::
  "liblog_state \<Rightarrow> dgram \<Rightarrow> (nat sys_result \<times> liblog_state) option" where
  "write_record st d =
     (case writev st d of
        None \<Rightarrow> None
      | Some (ret, st') \<Rightarrow>
          (case ret of
             Failed e \<Rightarrow>
               if errno_num e \<noteq> errno_num EAGAIN then
                 (case Reconnect st' of
                    None \<Rightarrow> None
                  | Some st'' \<Rightarrow> writev st'' d)
               else Some (ret, st')
           | Ok n \<Rightarrow> Some (ret, st')))"

text \<open>Lines 194--204: the value returned, and the count of a failed write.\<close>

definition finish_write ::
  "platform \<Rightarrow> nat sys_result \<Rightarrow> liblog_state \<Rightarrow> int \<times> liblog_state" where
  "finish_write K r st =
     (let ret = (case r of Ok n \<Rightarrow> int n | Failed e \<Rightarrow> - errno_num e) in
      if ret > int (sizeof_header K) then (ret - int (sizeof_header K), st)
      else if ret < 0 then (ret, st\<lparr>dropped := dropped st + 1\<rparr>)
      else (ret, st))"

definition LogdWrite ::
  "platform \<Rightarrow> process_env \<Rightarrow> liblog_state \<Rightarrow> log_id_t \<Rightarrow> timespec \<Rightarrow> iovec list
     \<Rightarrow> (int \<times> liblog_state) option" where
  "LogdWrite K env st logId ts vec =
     (let sock = (if logId = LOG_ID_SECURITY then BlockingSocket env else NonBlockingSocket env) in
      if sock < 0 then Some (- errno_num EBADF, st)
      else if getuid env = AID_LOGD K then Some (0, st)
      else
        let header = (make_header K env logId ts);
            snapshot = dropped st
        in case report_dropped K env (st\<lparr>dropped := 0\<rparr>) header snapshot of
             None \<Rightarrow> None
           | Some st1 \<Rightarrow>
               (case write_record st1 \<lparr>hdr = header, payload = Iov (fill_newVec K 0 vec)\<rparr> of
                  None \<Rightarrow> None
                | Some (r, st2) \<Rightarrow> Some (finish_write K r st2)))"

section \<open>liblog/logger\_write.cpp\<close>

text \<open>
  Lines 93--99 of \<^verbatim>\<open>check_log_uid_permissions\<close>: the array of groups is scanned from its last
  entry down; the result is the value of \<^verbatim>\<open>num_groups\<close> when the loop ends.
\<close>

fun scan_groups :: "platform \<Rightarrow> nat list \<Rightarrow> nat \<Rightarrow> nat" where
  "scan_groups K groups 0 = 0"
| "scan_groups K groups (Suc n) =
     (if groups ! n = AID_LOG K \<or> groups ! n = AID_SECURITY_LOG_WRITER K then Suc n
      else scan_groups K groups n)"

text \<open>
  Both calls of \<^verbatim>\<open>getgroups\<close> return the number of supplementary groups of the process, the
  second one after storing them in the array.
\<close>

definition check_log_uid_permissions :: "platform \<Rightarrow> process_env \<Rightarrow> int" where
  "check_log_uid_permissions K env =
     (let uid = getuid env in
      if uid \<noteq> AID_SYSTEM K \<and> uid \<noteq> AID_ROOT K \<and> uid \<noteq> AID_LOG K then
        let uid = geteuid env in
        if uid \<noteq> AID_SYSTEM K \<and> uid \<noteq> AID_ROOT K \<and> uid \<noteq> AID_LOG K then
          let gid = getgid env in
          if gid \<noteq> AID_SYSTEM K \<and> gid \<noteq> AID_ROOT K \<and> gid \<noteq> AID_LOG K then
            let gid = getegid env in
            if gid \<noteq> AID_SYSTEM K \<and> gid \<noteq> AID_ROOT K \<and> gid \<noteq> AID_LOG K then
              let num_groups = length (getgroups env) in
              if num_groups \<le> 0 then - errno_num EPERM
              else if \<not> calloc_ok env then - errno_num ENOMEM
              else
                let num_groups = scan_groups K (getgroups env) num_groups in
                if num_groups \<le> 0 then - errno_num EPERM else 0
            else 0
          else 0
        else 0
      else 0)"

text \<open>
  \<^verbatim>\<open>PmsgWrite\<close> is defined in a file that is not part of the translated sources; its result is
  ignored by the caller, and the call is recorded.
\<close>

definition PmsgWrite :: "liblog_state \<Rightarrow> log_id_t \<Rightarrow> timespec \<Rightarrow> iovec list \<Rightarrow> liblog_state" where
  "PmsgWrite st log_id ts vec = st\<lparr>pmsg := pmsg st @ [(log_id, ts, vec)]\<rparr>"

text \<open>Lines 230--233 of \<^verbatim>\<open>write_to_log\<close>: the record goes to logd, then to pmsg.\<close>

definition write_logd_pmsg ::
  "platform \<Rightarrow> process_env \<Rightarrow> liblog_state \<Rightarrow> log_id_t \<Rightarrow> timespec \<Rightarrow> iovec list
     \<Rightarrow> (int \<times> liblog_state) option" where
  "write_logd_pmsg K env st log_id ts vec =
     (case LogdWrite K env st log_id ts vec of
        None \<Rightarrow> None
      | Some (ret, st') \<Rightarrow> Some (ret, PmsgWrite st' log_id ts vec))"

text \<open>
  \<^verbatim>\<open>write_to_log\<close> (the \<^verbatim>\<open>__ANDROID__\<close> variant). The result is \<open>None\<close> when the call does not
  return a value: a system call never stops failing with \<^verbatim>\<open>EINTR\<close>, or \<^verbatim>\<open>vec[0]\<close> is read
  from an empty array.
\<close>

definition write_to_log ::
  "platform \<Rightarrow> process_env \<Rightarrow> liblog_state \<Rightarrow> log_id_t \<Rightarrow> iovec list \<Rightarrow> timespec option
     \<Rightarrow> (int \<times> liblog_state) option" where
  "write_to_log K env st log_id vec timestamp =
     (if log_id = LOG_ID_KERNEL then Some (- errno_num EINVAL, st)
      else
        let ts = (case timestamp of None \<Rightarrow> clock_realtime env | Some t \<Rightarrow> t) in
        if log_id = LOG_ID_SECURITY then
          (case vec of
             [] \<Rightarrow> None
           | v0 # vs \<Rightarrow>
               if length v0 < 4 then Some (- errno_num EINVAL, st)
               else
                 let ret = check_log_uid_permissions K env in
                 if ret < 0 then Some (ret, st)
                 else if \<not> android_log_security env then Some (- errno_num EPERM, st)
                 else write_logd_pmsg K env st log_id ts vec)
        else if log_id = LOG_ID_EVENTS \<or> log_id = LOG_ID_STATS then
          (case vec of
             [] \<Rightarrow> None
           | v0 # vs \<Rightarrow>
               if length v0 < 4 then Some (- errno_num EINVAL, st)
               else write_logd_pmsg K env st log_id ts vec)
        else write_logd_pmsg K env st log_id ts vec)"

record android_log_message =
  buffer_id :: log_id_t
  priority :: int
  tag :: "string option"        \<comment> \<open>\<open>None\<close> is \<^verbatim>\<open>nullptr\<close>\<close>
  msg_file :: "string option"   \<comment> \<open>the field \<^verbatim>\<open>file\<close>\<close>
  msg_line :: nat               \<comment> \<open>the field \<^verbatim>\<open>line\<close>\<close>
  message :: string

definition NUL :: char where
  "NUL = CHR 0x00"



section \<open>C strings\<close>

text \<open>
  A C string is the part of a byte sequence before its first NUL. \<open>strstr h n\<close> is the index
  of the first occurrence of \<open>n\<close> in \<open>h\<close>, both without their terminators, and \<open>None\<close> is
  the null pointer. \<open>strncmp_differ\<close> is \<^verbatim>\<open>strncmp(a, b, n) != 0\<close>.
\<close>

definition cstr :: "string \<Rightarrow> string" where
  "cstr mem = takeWhile (\<lambda>c. c \<noteq> NUL) mem"


definition strncmp_differ :: "string \<Rightarrow> string \<Rightarrow> nat \<Rightarrow> bool" where
  "strncmp_differ a b n = (take n (cstr a) \<noteq> take n (cstr b))"

section \<open>logd/main.cpp\<close>

text \<open>
  The kernel's answers to the four calls of \<^verbatim>\<open>issueReinit\<close>, one script each:
  \<^verbatim>\<open>socket_local_client\<close> returns a descriptor, \<^verbatim>\<open>write\<close> a number of bytes, \<^verbatim>\<open>poll\<close> its
  return value and whether \<^verbatim>\<open>POLLIN\<close> is set in \<^verbatim>\<open>revents\<close>, \<^verbatim>\<open>read\<close> the bytes it stored.
  What \<^verbatim>\<open>poll\<close> answers depends on the timeout it is called with, in milliseconds: each
  entry of its script is a function of the timeout.
\<close>

record reinit_env =
  socket_local_client :: "nat sys_result list"
  write_results :: "nat sys_result list"
  poll_results :: "(nat \<Rightarrow> (nat \<times> bool) sys_result) list"
  read_results :: "string sys_result list"

text \<open>The answers of \<^verbatim>\<open>poll\<close> when every call is made with the given timeout.\<close>

definition poll :: "reinit_env \<Rightarrow> nat \<Rightarrow> (nat \<times> bool) sys_result list" where
  "poll env timeout = map (\<lambda>answer. answer timeout) (poll_results env)"

definition reinitStr :: string where
  "reinitStr = ''reinit'' @ [NUL]"

definition success :: string where
  "success = ''success'' @ [NUL]"

text \<open>
  \<^verbatim>\<open>issueReinit\<close>: the value returned, and the \<^verbatim>\<open>write\<close> calls that have returned (the bytes
  submitted and the outcome). \<open>None\<close>: a call never stops failing with \<^verbatim>\<open>EINTR\<close>.
\<close>

definition issueReinit :: "reinit_env \<Rightarrow> (int \<times> (string \<times> nat sys_result) list) option" where
  "issueReinit env =
     (case TEMP_FAILURE_RETRY (socket_local_client env) of
        None \<Rightarrow> None
      | Some (Failed e, _) \<Rightarrow> Some (- errno_num e, [])
      | Some (Ok sock, _) \<Rightarrow>
          (case TEMP_FAILURE_RETRY (write_results env) of
             None \<Rightarrow> None
           | Some (Failed e, _) \<Rightarrow> Some (- errno_num e, [(reinitStr, Failed e)])
           | Some (Ok n, _) \<Rightarrow>
               (case TEMP_FAILURE_RETRY (poll env 1000) of
                  None \<Rightarrow> None
                | Some (Failed e, _) \<Rightarrow> Some (- errno_num e, [(reinitStr, Ok n)])
                | Some (Ok (ret, pollin), _) \<Rightarrow>
                    if ret = 0 \<or> \<not> pollin then Some (- errno_num ETIME, [(reinitStr, Ok n)])
                    else
                      (case TEMP_FAILURE_RETRY (read_results env) of
                         None \<Rightarrow> None
                       | Some (Failed e, _) \<Rightarrow> Some (- errno_num e, [(reinitStr, Ok n)])
                       | Some (Ok bytes, _) \<Rightarrow>
                           let buffer = take (length success - 1)
                                          (bytes @ replicate (length success - 1) NUL) in
                           Some (if strncmp_differ buffer success (length success - 1)
                                 then 1 else 0,
                                 [(reinitStr, Ok n)])))))"

text \<open>
  The start of \<^verbatim>\<open>main\<close>: with \<^verbatim>\<open>--reinit\<close> as first argument it returns what \<^verbatim>\<open>issueReinit\<close>
  returns; otherwise it goes on to start the daemon, which is not modelled.
\<close>

datatype main_result = Return "(int \<times> (string \<times> nat sys_result) list) option" | Daemon

definition logd_main :: "string list \<Rightarrow> reinit_env \<Rightarrow> main_result" where
  "logd_main argv env =
     (if length argv > 1 \<and> argv ! 1 = ''--reinit'' then Return (issueReinit env) else Daemon)"

section \<open>The logpersist script\<close>

text \<open>
  The argument loop (lines 25--46). \<open>size\<close>, \<open>buffer\<close> and \<open>clear\<close> are the shell variables;
  the patterns of the \<^verbatim>\<open>case\<close> are tried in the order of the script. An option that takes
  its value from the next argument and is the last argument shifts twice with one argument
  left: the second \<^verbatim>\<open>shift\<close> is an error of the shell.
\<close>

datatype parse_result =
    Parsed string string bool   \<comment> \<open>size, buffer, clear\<close>
  | Help                        \<comment> \<open>usage, \<^verbatim>\<open>exit 0\<close>\<close>
  | Bad_argument                \<comment> \<open>usage, \<^verbatim>\<open>ERROR: bad argument\<close>, \<^verbatim>\<open>exit 1\<close>\<close>
  | Shift_error

fun parse_args :: "string \<Rightarrow> string \<Rightarrow> bool \<Rightarrow> string list \<Rightarrow> parse_result" where
  "parse_args size' buffer clear [] = Parsed size' buffer clear"
| "parse_args size' buffer clear (a # rest) =
     (if a = ''-c'' \<or> a = ''--clear'' then parse_args size' buffer True rest
      else if prefix ''--size='' a then parse_args (drop 7 a) buffer clear rest
      else if prefix ''--rotate-count='' a then parse_args (drop 15 a) buffer clear rest
      else if a = ''-n'' \<or> a = ''--size'' \<or> a = ''--rotate-count'' then
        (case rest of
           [] \<Rightarrow> Shift_error
         | v # rest' \<Rightarrow> parse_args v buffer clear rest')
      else if prefix ''--buffer='' a then parse_args size' (drop 9 a) clear rest
      else if a = ''-b'' \<or> a = ''--buffer'' then
        (case rest of
           [] \<Rightarrow> Shift_error
         | v # rest' \<Rightarrow> parse_args size' v clear rest')
      else if a = ''-h'' \<or> a = ''--help'' then Help
      else Bad_argument)"

datatype message = Disabled | Usage | Bad_argument_error | Invalid_size | Invalid_buffer

datatype script_result =
    Exit nat message
  | Shell_error
  | Validated "string option" "string option" bool
      \<comment> \<open>the script goes on to the subcommand with \<open>size\<close>, \<open>buffer\<close> (\<open>None\<close>: unset), \<open>clear\<close>\<close>

text \<open>
  Lines 48--55. \<open>sh_integer\<close> is the shell's reading of an operand of \<^verbatim>\<open>-lt\<close> and \<^verbatim>\<open>-ge\<close>
  as an integer, \<open>None\<close> when \<^verbatim>\<open>[\<close> rejects the operand.
\<close>

definition size_valid :: "(string \<Rightarrow> int option) \<Rightarrow> string \<Rightarrow> bool" where
  "size_valid sh_integer size' =
     (case sh_integer size' of None \<Rightarrow> False | Some n \<Rightarrow> 0 < n \<and> 2048 \<ge> n)"

text \<open>
  The script up to line 62. \<open>enable\<close> is the output of
  \<^verbatim>\<open>getprop logd.logpersistd.enable\<close>, \<open>logcat_ok b\<close> tells whether \<^verbatim>\<open>logcat -b b -g\<close>
  succeeds.
\<close>

definition logpersist ::
  "(string \<Rightarrow> int option) \<Rightarrow> (string \<Rightarrow> bool) \<Rightarrow> string \<Rightarrow> string list \<Rightarrow> script_result" where
  "logpersist sh_integer logcat_ok enable args =
     (if enable \<noteq> ''true'' then Exit 1 Disabled
      else
        let size_default = ''256''; buffer_default = ''all'' in
        case parse_args size_default buffer_default False args of
          Help \<Rightarrow> Exit 0 Usage
        | Bad_argument \<Rightarrow> Exit 1 Bad_argument_error
        | Shift_error \<Rightarrow> Shell_error
        | Parsed size' buffer clear \<Rightarrow>
            let size' = (if size' = [] \<or> size_default = size' then None else Some size') in
            if size' \<noteq> None \<and> \<not> size_valid sh_integer (the size') then Exit 1 Invalid_size
            else
              let buffer = (if buffer = [] \<or> buffer_default = buffer then None
                            else Some buffer) in
              if buffer \<noteq> None \<and> \<not> logcat_ok (the buffer) then Exit 1 Invalid_buffer
              else Validated size' buffer clear)"

section \<open>logd/LogAudit.cpp\<close>


section \<open>Notions used to state the properties\<close>

subsection \<open>Dropped messages\<close>

text \<open>
  The drops reported to logd by a sequence of \<^verbatim>\<open>writev\<close> calls: the sum (in 32 bits, as the
  counter) of the snapshots carried by the report events that were written in full.
\<close>

fun reported :: "platform \<Rightarrow> (dgram \<times> nat sys_result) list \<Rightarrow> 32 word" where
  "reported K [] = 0"
| "reported K (w # ws) =
     (case payload (fst w) of
        Dropped_event snapshot \<Rightarrow>
          (if snd w = Ok (sizeof_header K + sizeof_event_int K) then snapshot else 0)
      | Iov vec \<Rightarrow> 0) + reported K ws"

text \<open>A sequence of calls of \<^verbatim>\<open>LogdWrite\<close>, with the values they return.\<close>

fun LogdWrite_all ::
  "platform \<Rightarrow> process_env \<Rightarrow> liblog_state \<Rightarrow> (log_id_t \<times> timespec \<times> iovec list) list
     \<Rightarrow> (int list \<times> liblog_state) option" where
  "LogdWrite_all K env st [] = Some ([], st)"
| "LogdWrite_all K env st (c # cs) =
     (case LogdWrite K env st (fst c) (fst (snd c)) (snd (snd c)) of
        None \<Rightarrow> None
      | Some (ret, st') \<Rightarrow>
          (case LogdWrite_all K env st' cs of
             None \<Rightarrow> None
           | Some (rets, st'') \<Rightarrow> Some (ret # rets, st'')))"

subsection \<open>The approved principals of the security log\<close>

text \<open>
  A principal is approved when its uid or euid is one of \<^verbatim>\<open>AID_SYSTEM\<close>, \<^verbatim>\<open>AID_ROOT\<close>,
  \<^verbatim>\<open>AID_LOG\<close>, or its gid or egid is one of those, or one of its supplementary groups is
  \<^verbatim>\<open>AID_LOG\<close> or \<^verbatim>\<open>AID_SECURITY_LOG_WRITER\<close>.
\<close>

definition approved_id :: "platform \<Rightarrow> nat \<Rightarrow> bool" where
  "approved_id K i = (i = AID_SYSTEM K \<or> i = AID_ROOT K \<or> i = AID_LOG K)"

definition approved_by_id :: "platform \<Rightarrow> process_env \<Rightarrow> bool" where
  "approved_by_id K env =
     (approved_id K (getuid env) \<or> approved_id K (geteuid env) \<or>
      approved_id K (getgid env) \<or> approved_id K (getegid env))"

definition approved_by_group :: "platform \<Rightarrow> process_env \<Rightarrow> bool" where
  "approved_by_group K env =
     (\<exists>g \<in> set (getgroups env). g = AID_LOG K \<or> g = AID_SECURITY_LOG_WRITER K)"

definition approved :: "platform \<Rightarrow> process_env \<Rightarrow> bool" where
  "approved K env = (approved_by_id K env \<or> approved_by_group K env)"

subsection \<open>The reply to \<^verbatim>\<open>reinit\<close>\<close>

text \<open>
  The command is acknowledged: the connection is made, the command is written, a call of
  \<^verbatim>\<open>poll\<close> with a timeout of 1000 ms (the last of the calls that \<^verbatim>\<open>EINTR\<close> made necessary)
  reports a descriptor with \<^verbatim>\<open>POLLIN\<close> set, and the bytes returned by the one \<^verbatim>\<open>read\<close> begin
  with \<^verbatim>\<open>success\<close>.
\<close>

definition reinit_acknowledged :: "reinit_env \<Rightarrow> bool" where
  "reinit_acknowledged env =
     (case (TEMP_FAILURE_RETRY (socket_local_client env), TEMP_FAILURE_RETRY (write_results env),
            TEMP_FAILURE_RETRY (poll env 1000), TEMP_FAILURE_RETRY (read_results env)) of
        (Some (Ok sock, _), Some (Ok n, _), Some (Ok (ret, pollin), _), Some (Ok bytes, _)) \<Rightarrow>
          0 < ret \<and> pollin \<and> prefix ''success'' bytes
      | _ \<Rightarrow> False)"

subsection \<open>Arguments of logpersist\<close>

text \<open>An argument is recognized when it matches a pattern of the loop other than \<^verbatim>\<open>*\<close>.\<close>

definition recognized :: "string \<Rightarrow> bool" where
  "recognized a =
     (a = ''-c'' \<or> a = ''--clear'' \<or> prefix ''--size='' a \<or> prefix ''--rotate-count='' a \<or>
      a = ''-n'' \<or> a = ''--size'' \<or> a = ''--rotate-count'' \<or> prefix ''--buffer='' a \<or>
      a = ''-b'' \<or> a = ''--buffer'' \<or> a = ''-h'' \<or> a = ''--help'')"

subsection \<open>Example inputs\<close>

definition app_env :: process_env where
  "app_env = \<lparr> getuid = 10083, geteuid = 10083, getgid = 10083, getegid = 10083,
               getgroups = [3003, 9997], calloc_ok = True, gettid = 70000,
               clock_realtime = \<lparr>tv_sec = 1700000000, tv_nsec = 5\<rparr>,
               BlockingSocket = 7, NonBlockingSocket = 8,
               liblog_loggable = True, android_log_security = True \<rparr>"

definition app_header :: "8 word \<Rightarrow> android_log_header_t" where
  "app_header i =
     \<lparr>hdr_id = i, hdr_tid = 4464, hdr_realtime = \<lparr>lt_sec = 1700000000, lt_nsec = 5\<rparr>\<rparr>"

definition ts0 :: timespec where
  "ts0 = \<lparr>tv_sec = 1700000000, tv_nsec = 5\<rparr>"

definition idle :: liblog_state where
  "idle = \<lparr> dropped = 0, syscalls = [], writes = [], pmsg = [] \<rparr>"

definition hello :: "iovec list" where
  "hello = [[CHR 0x04], ''tag'' @ [NUL], ''hi'' @ [NUL]]"

definition long_message :: "iovec list" where
  "long_message = [[CHR 0x04], ''tag'' @ [NUL], replicate 5000 (CHR ''x'')]"

definition main_dgram :: "iovec list \<Rightarrow> dgram" where
  "main_dgram vec =
     \<lparr>hdr = app_header 0, payload = Iov vec\<rparr>"


definition quiet_env :: process_env where
  "quiet_env = app_env\<lparr>liblog_loggable := False\<rparr>"

definition system_env :: process_env where
  "system_env = app_env\<lparr>getuid := 1000, geteuid := 1000, getgid := 1000, getegid := 1000\<rparr>"

definition log_group_env :: process_env where
  "log_group_env = app_env\<lparr>getgroups := [3003, 1007], calloc_ok := False\<rparr>"

definition security_event :: "iovec list" where
  "security_event = [[CHR 0x01, CHR 0x02, CHR 0x03, CHR 0x04], [CHR 0x00, CHR 0x2A]]"

definition security_dgram :: dgram where
  "security_dgram =
     \<lparr>hdr = app_header 6,
      payload = Iov security_event\<rparr>"


text \<open>
  Answers of \<^verbatim>\<open>poll\<close>: data become readable \<open>delay\<close> ms after the call, so that a call with a
  shorter timeout returns 0; a signal arrives \<open>delay\<close> ms after the call.
\<close>

definition readable_after :: "nat \<Rightarrow> nat \<Rightarrow> (nat \<times> bool) sys_result" where
  "readable_after delay timeout = (if delay \<le> timeout then Ok (1, True) else Ok (0, False))"

definition interrupted_after :: "nat \<Rightarrow> nat \<Rightarrow> (nat \<times> bool) sys_result" where
  "interrupted_after delay timeout =
     (if delay < timeout then Failed EINTR else Ok (0, False))"

text \<open>The bytes the peer sends, as the successive calls of \<^verbatim>\<open>read\<close> would return them.\<close>

definition reply :: "reinit_env \<Rightarrow> string" where
  "reply env = concat (map (\<lambda>r. case r of Ok bytes \<Rightarrow> bytes | Failed e \<Rightarrow> []) (read_results env))"

definition reinit_ok :: reinit_env where
  "reinit_ok = \<lparr> socket_local_client = [Failed EINTR, Ok 5], write_results = [Ok 7],
                 poll_results = [readable_after 200], read_results = [Ok ''success''] \<rparr>"

text \<open>
  A reading of integers by the shell and a set of buffers known to logcat, for the examples of
  the logpersist script.
\<close>

definition sh_example :: "string \<Rightarrow> int option" where
  "sh_example s =
     (if s = ''100'' then Some 100 else if s = ''0256'' then Some 256
      else if s = ''4096'' then Some 4096 else if s = ''0'' then Some 0 else None)"

definition logcat_example :: "string \<Rightarrow> bool" where
  "logcat_example b = (b = ''main'' \<or> b = ''system'' \<or> b = ''crash'')"





section \<open>Properties of \<^verbatim>\<open>LogdWrite\<close>\<close>

subsection \<open>Auxiliary facts\<close>

lemma fill_newVec_concat:
  "payloadSize \<le> LOGGER_ENTRY_MAX_PAYLOAD K \<Longrightarrow>
   concat (fill_newVec K payloadSize vec) =
     take (LOGGER_ENTRY_MAX_PAYLOAD K - payloadSize) (concat vec)"
proof (induction vec arbitrary: payloadSize)
  case Nil
  then show ?case by simp
next
  case (Cons v vs)
  show ?case
  proof (cases "payloadSize + length v > LOGGER_ENTRY_MAX_PAYLOAD K")
    case True
    then have "length v - (payloadSize + length v - LOGGER_ENTRY_MAX_PAYLOAD K) =
               LOGGER_ENTRY_MAX_PAYLOAD K - payloadSize"
      using Cons.prems by arith
    moreover have "LOGGER_ENTRY_MAX_PAYLOAD K - payloadSize < length v"
      using True Cons.prems by arith
    ultimately show ?thesis using True by (simp add: Let_def)
  next
    case False
    then have le: "payloadSize + length v \<le> LOGGER_ENTRY_MAX_PAYLOAD K" by simp
    have "LOGGER_ENTRY_MAX_PAYLOAD K - payloadSize - length v =
          LOGGER_ENTRY_MAX_PAYLOAD K - (payloadSize + length v)" by arith
    then show ?thesis using False le Cons.IH [OF le] by (simp add: Let_def)
  qed
qed

lemma fill_newVec_shape:
  "payloadSize \<le> LOGGER_ENTRY_MAX_PAYLOAD K \<Longrightarrow>
   \<exists>k last. fill_newVec K payloadSize vec = take k vec @ last \<and> k \<le> length vec \<and>
     (last = [] \<or> (k < length vec \<and>
        (\<exists>m. last = [take m (vec ! k)] \<and> 0 < m \<and> m < length (vec ! k))))"
proof (induction vec arbitrary: payloadSize)
  case Nil
  then show ?case by simp
next
  case (Cons v vs)
  show ?case
  proof (cases "payloadSize + length v > LOGGER_ENTRY_MAX_PAYLOAD K")
    case True
    let ?m = "length v - (payloadSize + length v - LOGGER_ENTRY_MAX_PAYLOAD K)"
    have m: "?m < length v" using True Cons.prems by arith
    show ?thesis
    proof (cases "?m = 0")
      case True
      with \<open>payloadSize + length v > LOGGER_ENTRY_MAX_PAYLOAD K\<close>
      have "fill_newVec K payloadSize (v # vs) = take 0 (v # vs) @ []"
        by (simp add: Let_def)
      then show ?thesis by blast
    next
      case False
      with \<open>payloadSize + length v > LOGGER_ENTRY_MAX_PAYLOAD K\<close>
      have "fill_newVec K payloadSize (v # vs) = take 0 (v # vs) @ [take ?m ((v # vs) ! 0)]"
        by (simp add: Let_def)
      moreover have "0 < ?m" using False by simp
      ultimately show ?thesis using m
        by (intro exI [of _ 0] exI [of _ "[take ?m ((v # vs) ! 0)]"]) auto
    qed
  next
    case False
    then have le: "payloadSize + length v \<le> LOGGER_ENTRY_MAX_PAYLOAD K" by simp
    from Cons.IH [OF le] obtain k last where
      h: "fill_newVec K (payloadSize + length v) vs = take k vs @ last" "k \<le> length vs"
         "last = [] \<or> (k < length vs \<and>
            (\<exists>m. last = [take m (vs ! k)] \<and> 0 < m \<and> m < length (vs ! k)))"
      by blast
    have "fill_newVec K payloadSize (v # vs) = take (Suc k) (v # vs) @ last"
      using False h(1) by (simp add: Let_def)
    then show ?thesis using h(2,3)
      by (intro exI [of _ "Suc k"] exI [of _ last]) auto
  qed
qed



lemma writev_Some:
  "writev st d = Some (r, st') \<Longrightarrow>
     writes st' = writes st @ [(d, r)] \<and> dropped st' = dropped st \<and> pmsg st' = pmsg st"
  by (auto simp: writev_def split: option.splits)

lemma Reconnect_Some:
  "Reconnect st = Some st' \<Longrightarrow>
     writes st' = writes st \<and> dropped st' = dropped st \<and> pmsg st' = pmsg st"
  by (auto simp: Reconnect_def split: option.splits)

lemma report_dropped_Some:
  assumes "report_dropped K env st header snapshot = Some st'"
  shows "pmsg st' = pmsg st \<and>
     (if snapshot \<noteq> 0 \<and> liblog_loggable env then
        \<exists>r. writes st' =
               writes st @ [(\<lparr>hdr = header\<lparr>hdr_id := log_id_byte K LOG_ID_EVENTS\<rparr>,
                              payload = Dropped_event snapshot\<rparr>, r)] \<and>
            dropped st' = (if r = Ok (sizeof_header K + sizeof_event_int K) then dropped st
                           else dropped st + snapshot)
      else st' = st)"
proof (cases "snapshot \<noteq> 0 \<and> liblog_loggable env")
  case False
  with assms show ?thesis by (simp add: report_dropped_def)
next
  case True
  let ?d = "\<lparr>hdr = header\<lparr>hdr_id := log_id_byte K LOG_ID_EVENTS\<rparr>, payload = Dropped_event snapshot\<rparr>"
  from assms True obtain r st1 where w: "writev st ?d = Some (r, st1)"
    by (auto simp: report_dropped_def split: option.splits)
  from writev_Some [OF w] have f: "writes st1 = writes st @ [(?d, r)]" "dropped st1 = dropped st"
    "pmsg st1 = pmsg st" by simp_all
  from assms True w have
    "st' = (if r \<noteq> Ok (sizeof_header K + sizeof_event_int K)
            then st1\<lparr>dropped := dropped st1 + snapshot\<rparr> else st1)"
    by (simp add: report_dropped_def split: if_splits)
  with f True show ?thesis by auto
qed

lemma write_record_Some:
  "write_record st d = Some (r, st') \<Longrightarrow>
     pmsg st' = pmsg st \<and> dropped st' = dropped st \<and>
     (writes st' = writes st @ [(d, r)] \<or>
      (\<exists>e. writes st' = writes st @ [(d, Failed e), (d, r)]))"
  by (auto simp: write_record_def split: option.splits sys_result.splits if_splits
           dest!: writev_Some Reconnect_Some)

lemma finish_write_frame:
  "finish_write K r st = (ret, st') \<Longrightarrow>
     writes st' = writes st \<and> pmsg st' = pmsg st \<and> syscalls st' = syscalls st"
  by (auto simp: finish_write_def Let_def split: if_splits)

lemma LogdWrite_writes:
  assumes "LogdWrite K env st logId ts vec = Some (ret, st')"
  shows "\<exists>new. writes st' = writes st @ new \<and>
           (\<forall>w \<in> set new. payload (fst w) = Dropped_event (dropped st) \<or>
                           payload (fst w) = Iov (fill_newVec K 0 vec))"
proof (cases "(if logId = LOG_ID_SECURITY then BlockingSocket env else NonBlockingSocket env) < 0
              \<or> getuid env = AID_LOGD K")
  case True
  with assms have "st' = st"
    by (auto simp: LogdWrite_def Let_def split: if_splits)
  then show ?thesis by simp
next
  case False
  let ?header = "(make_header K env logId ts)"
  let ?d = "\<lparr>hdr = ?header, payload = Iov (fill_newVec K 0 vec)\<rparr>"
  from assms False obtain st1 r st2 where
    rep: "report_dropped K env (st\<lparr>dropped := 0\<rparr>) ?header (dropped st) = Some st1" and
    wr: "write_record st1 ?d = Some (r, st2)" and
    fin: "finish_write K r st2 = (ret, st')"
    by (auto simp: LogdWrite_def Let_def split: if_splits option.splits)
  from report_dropped_Some [OF rep]
  obtain n1 where n1: "writes st1 = writes st @ n1"
    "\<forall>w \<in> set n1. payload (fst w) = Dropped_event (dropped st)"
    by (auto split: if_splits)
  from write_record_Some [OF wr]
  obtain n2 where n2: "writes st2 = writes st1 @ n2" "\<forall>w \<in> set n2. fst w = ?d"
    by auto
  from finish_write_frame [OF fin] have "writes st' = writes st @ (n1 @ n2)"
    using n1 n2 by simp
  moreover have "\<forall>w \<in> set (n1 @ n2). payload (fst w) = Dropped_event (dropped st) \<or>
                           payload (fst w) = Iov (fill_newVec K 0 vec)"
    using n1(2) n2(2) by auto
  ultimately show ?thesis by blast
qed




lemma errno_num_pos: "0 < errno_num e"
  by (cases e) simp_all

lemma errno_num_small: "errno_num e < 256"
  by (cases e) simp_all

lemma TEMP_FAILURE_RETRY_answers:
  "TEMP_FAILURE_RETRY script =
     (case answers script of [] \<Rightarrow> None
      | r # rs \<Rightarrow> Some (r, drop (length (takeWhile (\<lambda>r. r = Failed EINTR) script) + 1) script))"
  by (induction script) (auto simp: answers_def split: list.splits)

lemma TEMP_FAILURE_RETRY_Some:
  "TEMP_FAILURE_RETRY script = Some (r, rest) \<Longrightarrow>
     r \<noteq> Failed EINTR \<and> answers script = r # answers rest"
  by (induction script) (auto simp: answers_def split: if_splits)

lemma TEMP_FAILURE_RETRY_returns:
  "answers script \<noteq> [] \<Longrightarrow> \<exists>r rest. TEMP_FAILURE_RETRY script = Some (r, rest)"
  by (induction script) (auto simp: answers_def)

lemma writev_returns:
  "answers (syscalls st) \<noteq> [] \<Longrightarrow>
   \<exists>r st'. writev st d = Some (r, st') \<and> answers (syscalls st) = r # answers (syscalls st') \<and>
            dropped st' = dropped st"
proof -
  assume "answers (syscalls st) \<noteq> []"
  then obtain r rest where h: "TEMP_FAILURE_RETRY (syscalls st) = Some (r, rest)"
    using TEMP_FAILURE_RETRY_returns by blast
  then show ?thesis using TEMP_FAILURE_RETRY_Some [OF h] by (simp add: writev_def)
qed

lemma Reconnect_returns:
  "answers (syscalls st) \<noteq> [] \<Longrightarrow>
   \<exists>st'. Reconnect st = Some st' \<and> length (answers (syscalls st)) = Suc (length (answers (syscalls st')))"
proof -
  assume "answers (syscalls st) \<noteq> []"
  then obtain r rest where h: "TEMP_FAILURE_RETRY (syscalls st) = Some (r, rest)"
    using TEMP_FAILURE_RETRY_returns by blast
  then show ?thesis using TEMP_FAILURE_RETRY_Some [OF h] by (simp add: Reconnect_def)
qed

lemma report_dropped_returns:
  assumes "answers (syscalls st) \<noteq> []"
  shows "\<exists>st'. report_dropped K env st header snapshot = Some st' \<and>
           length (answers (syscalls st)) \<le> Suc (length (answers (syscalls st')))"
proof (cases "snapshot \<noteq> 0 \<and> liblog_loggable env")
  case True
  from writev_returns [OF assms] obtain r st' where
    "writev st \<lparr>hdr = header\<lparr>hdr_id := log_id_byte K LOG_ID_EVENTS\<rparr>, payload = Dropped_event snapshot\<rparr>
       = Some (r, st')" "answers (syscalls st) = r # answers (syscalls st')"
    by blast
  with True show ?thesis by (auto simp: report_dropped_def)
next
  case False
  then show ?thesis by (auto simp: report_dropped_def)
qed

lemma write_record_returns:
  assumes "3 \<le> length (answers (syscalls st))"
  shows "\<exists>r st'. write_record st d = Some (r, st')"
proof -
  from assms have "answers (syscalls st) \<noteq> []" by auto
  from writev_returns [OF this] obtain r st1 where
    w1: "writev st d = Some (r, st1)" "answers (syscalls st) = r # answers (syscalls st1)"
    by blast
  show ?thesis
  proof (cases r)
    case (Ok n)
    with w1 show ?thesis by (simp add: write_record_def)
  next
    case (Failed e)
    show ?thesis
    proof (cases "errno_num e \<noteq> errno_num EAGAIN")
      case False
      with w1 Failed show ?thesis by (simp add: write_record_def)
    next
      case True
      from w1(2) assms have "answers (syscalls st1) \<noteq> []" by auto
      from Reconnect_returns [OF this] obtain st2 where
        rc: "Reconnect st1 = Some st2"
            "length (answers (syscalls st1)) = Suc (length (answers (syscalls st2)))"
        by blast
      with w1(2) assms have "answers (syscalls st2) \<noteq> []" by auto
      from writev_returns [OF this] obtain r' st3 where "writev st2 d = Some (r', st3)"
        by blast
      with w1 Failed True rc show ?thesis by (simp add: write_record_def)
    qed
  qed
qed

lemma LogdWrite_returns:
  assumes "4 \<le> length (answers (syscalls st))"
  shows "\<exists>ret st'. LogdWrite K env st logId ts vec = Some (ret, st')"
proof -
  let ?header = "(make_header K env logId ts)"
  from assms have "answers (syscalls (st\<lparr>dropped := 0\<rparr>)) \<noteq> []" by auto
  from report_dropped_returns [OF this, of K env ?header "dropped st"] obtain st1 where
    rep: "report_dropped K env (st\<lparr>dropped := 0\<rparr>) ?header (dropped st) = Some st1"
         "length (answers (syscalls (st\<lparr>dropped := 0\<rparr>))) \<le> Suc (length (answers (syscalls st1)))"
    by blast
  with assms have "3 \<le> length (answers (syscalls st1))" by simp
  from write_record_returns [OF this] obtain r st2 where
    "write_record st1 \<lparr>hdr = ?header, payload = Iov (fill_newVec K 0 vec)\<rparr> = Some (r, st2)"
    by blast
  with rep(1) show ?thesis
    by (cases "finish_write K r st2") (auto simp: LogdWrite_def Let_def)
qed

lemma finish_write_ret:
  "fst (finish_write K r st) =
     (case r of
        Ok n \<Rightarrow> if int (sizeof_header K) < int n then int n - int (sizeof_header K) else int n
      | Failed e \<Rightarrow> - errno_num e)"
proof (cases r)
  case (Ok n)
  then show ?thesis by (simp add: finish_write_def Let_def)
next
  case (Failed e)
  have "- errno_num e < 0" using errno_num_pos [of e] by simp
  moreover have "\<not> int (sizeof_header K) < - errno_num e" using errno_num_pos [of e] by simp
  ultimately show ?thesis using Failed by (simp add: finish_write_def Let_def)
qed


lemma LogdWrite_last_write:
  assumes "LogdWrite K env st logId ts vec = Some (ret, st')"
      and "0 \<le> (if logId = LOG_ID_SECURITY then BlockingSocket env else NonBlockingSocket env)"
      and "getuid env \<noteq> AID_LOGD K"
  shows "\<exists>r. writes st' \<noteq> [] \<and>
           last (writes st') =
             (\<lparr>hdr = (make_header K env logId ts),
               payload = Iov (fill_newVec K 0 vec)\<rparr>, r) \<and>
           ret = (case r of
                    Ok n \<Rightarrow> if int (sizeof_header K) < int n then int n - int (sizeof_header K)
                            else int n
                  | Failed e \<Rightarrow> - errno_num e)"
proof -
  let ?header = "(make_header K env logId ts)"
  let ?d = "\<lparr>hdr = ?header, payload = Iov (fill_newVec K 0 vec)\<rparr>"
  from assms obtain st1 r st2 where
    rep: "report_dropped K env (st\<lparr>dropped := 0\<rparr>) ?header (dropped st) = Some st1" and
    wr: "write_record st1 ?d = Some (r, st2)" and
    fin: "finish_write K r st2 = (ret, st')"
    by (auto simp: LogdWrite_def Let_def split: if_splits option.splits)
  from write_record_Some [OF wr] have "writes st2 \<noteq> [] \<and> last (writes st2) = (?d, r)"
    by auto
  moreover from finish_write_frame [OF fin] have "writes st' = writes st2" by simp
  moreover from fin have "ret = (case r of
                    Ok n \<Rightarrow> if int (sizeof_header K) < int n then int n - int (sizeof_header K)
                            else int n
                  | Failed e \<Rightarrow> - errno_num e)"
    using finish_write_ret [of K r st2] by simp
  ultimately show ?thesis by auto
qed

subsection \<open>The dropped counter: auxiliary facts\<close>

lemmas LogdWrite_eval =
  LogdWrite_def report_dropped_def write_record_def writev_def Reconnect_def finish_write_def
  Let_def android_def app_env_def idle_def main_dgram_def make_header_def log_id_byte_def
  app_header_def ts0_def

lemma reported_append: "reported K (a @ b) = reported K a + reported K b"
  by (induction a) (simp_all add: add.assoc)

lemma reported_Iov: "\<forall>w \<in> set ws. \<exists>vec. payload (fst w) = Iov vec \<Longrightarrow> reported K ws = 0"
  by (induction ws) auto

lemma finish_write_dropped:
  assumes "finish_write K r st = (ret, st')"
  shows "dropped st' = dropped st + (if ret < 0 then 1 else 0)"
proof (cases r)
  case (Ok n)
  with assms show ?thesis by (auto simp: finish_write_def Let_def split: if_splits)
next
  case (Failed e)
  have "- errno_num e < 0" "\<not> int (sizeof_header K) < - errno_num e"
    using errno_num_pos [of e] by simp_all
  with assms Failed show ?thesis by (auto simp: finish_write_def Let_def)
qed

lemma LogdWrite_phases:
  assumes "LogdWrite K env st logId ts vec = Some (ret, st')"
      and "0 \<le> (if logId = LOG_ID_SECURITY then BlockingSocket env else NonBlockingSocket env)"
      and "getuid env \<noteq> AID_LOGD K"
  shows "\<exists>st1 r st2.
           report_dropped K env (st\<lparr>dropped := 0\<rparr>)
             (make_header K env logId ts) (dropped st) = Some st1 \<and>
           write_record st1
             \<lparr>hdr = (make_header K env logId ts),
              payload = Iov (fill_newVec K 0 vec)\<rparr> = Some (r, st2) \<and>
           finish_write K r st2 = (ret, st')"
  using assms by (auto simp: LogdWrite_def Let_def split: if_splits option.splits)

lemma LogdWrite_dropped_step:
  assumes run: "LogdWrite K env st logId ts vec = Some (ret, st')"
      and sock: "0 \<le> (if logId = LOG_ID_SECURITY then BlockingSocket env
                        else NonBlockingSocket env)"
      and uid: "getuid env \<noteq> AID_LOGD K"
  shows "dropped st' + reported K (writes st') =
           (if dropped st \<noteq> 0 \<and> \<not> liblog_loggable env then 0 else dropped st) +
           reported K (writes st) + (if ret < 0 then 1 else 0)"
proof -
  let ?header = "(make_header K env logId ts)"
  let ?d = "\<lparr>hdr = ?header, payload = Iov (fill_newVec K 0 vec)\<rparr>"
  from LogdWrite_phases [OF run sock uid] obtain st1 r st2 where
    rep: "report_dropped K env (st\<lparr>dropped := 0\<rparr>) ?header (dropped st) = Some st1" and
    wr: "write_record st1 ?d = Some (r, st2)" and
    fin: "finish_write K r st2 = (ret, st')"
    by blast
  have one: "dropped st1 + reported K (writes st1) =
               (if dropped st \<noteq> 0 \<and> \<not> liblog_loggable env then 0 else dropped st) +
               reported K (writes st)"
  proof (cases "dropped st \<noteq> 0 \<and> liblog_loggable env")
    case True
    with report_dropped_Some [OF rep] obtain r0 where
      "writes st1 = writes st @ [(\<lparr>hdr = ?header\<lparr>hdr_id := log_id_byte K LOG_ID_EVENTS\<rparr>,
                                   payload = Dropped_event (dropped st)\<rparr>, r0)]"
      "dropped st1 = (if r0 = Ok (sizeof_header K + sizeof_event_int K) then 0
                      else 0 + dropped st)"
      by auto
    with True show ?thesis by (simp add: reported_append)
  next
    case False
    with report_dropped_Some [OF rep] have "st1 = st\<lparr>dropped := 0\<rparr>" by auto
    with False show ?thesis by auto
  qed
  from write_record_Some [OF wr] obtain new where
    two: "dropped st2 = dropped st1" "writes st2 = writes st1 @ new"
         "\<forall>w \<in> set new. \<exists>vec. payload (fst w) = Iov vec"
    by auto
  from finish_write_dropped [OF fin] finish_write_frame [OF fin]
  have three: "dropped st' = dropped st2 + (if ret < 0 then 1 else 0)" "writes st' = writes st2"
    by simp_all
  have "reported K (writes st') = reported K (writes st1)"
    using two three reported_Iov [OF two(3)] by (simp add: reported_append)
  with one two(1) three(1) show ?thesis by simp
qed

lemma LogdWrite_all_dropped:
  assumes "0 \<le> BlockingSocket env" "0 \<le> NonBlockingSocket env" "getuid env \<noteq> AID_LOGD K"
      and "liblog_loggable env"
  shows "LogdWrite_all K env st calls = Some (rets, st') \<Longrightarrow>
         dropped st' + reported K (writes st') =
           dropped st + reported K (writes st) + of_nat (length (filter (\<lambda>ret. ret < 0) rets))"
proof (induction calls arbitrary: st rets)
  case Nil
  then show ?case by simp
next
  case (Cons c cs)
  from Cons.prems obtain ret st1 rets' where
    c: "LogdWrite K env st (fst c) (fst (snd c)) (snd (snd c)) = Some (ret, st1)" and
    cs: "LogdWrite_all K env st1 cs = Some (rets', st')" and
    rets: "rets = ret # rets'"
    by (auto split: option.splits)
  have sock: "0 \<le> (if fst c = LOG_ID_SECURITY then BlockingSocket env
                      else NonBlockingSocket env)"
    using assms(1,2) by simp
  from LogdWrite_dropped_step [OF c sock assms(3)] assms(4)
  have "dropped st1 + reported K (writes st1) =
          dropped st + reported K (writes st) + (if ret < 0 then 1 else 0)"
    by simp
  with Cons.IH [OF cs] rets show ?case by simp
qed

subsection \<open>The payload cap\<close>

text \<open>
  Claim C2. Whenever \<^verbatim>\<open>LogdWrite\<close> hands the caller's iovecs to \<^verbatim>\<open>writev\<close>, in the first
  attempt or after the reconnect, the bytes that follow the header are the first
  \<^verbatim>\<open>LOGGER_ENTRY_MAX_PAYLOAD\<close> bytes of the caller's payload: their number is the minimum of the
  summed iovec lengths and the cap, hence at most the cap, and at most 4096 when the cap is.
  The array is a prefix of the caller's array, followed by at most one iovec that has been
  shortened to a non-zero length; the iovecs after it are dropped.
\<close>

theorem LogdWrite_payload_capped:
  assumes "LogdWrite K env st logId ts vec = Some (ret, st')"
      and "w \<in> set (drop (length (writes st)) (writes st'))"
      and "payload (fst w) = Iov newVec"
  shows "concat newVec = take (LOGGER_ENTRY_MAX_PAYLOAD K) (concat vec) \<and>
         sum_list (map length newVec) =
           min (sum_list (map length vec)) (LOGGER_ENTRY_MAX_PAYLOAD K) \<and>
         sum_list (map length newVec) \<le> LOGGER_ENTRY_MAX_PAYLOAD K \<and>
         (LOGGER_ENTRY_MAX_PAYLOAD K \<le> 4096 \<longrightarrow> sum_list (map length newVec) \<le> 4096) \<and>
         (\<exists>k last. newVec = take k vec @ last \<and> k \<le> length vec \<and>
            (last = [] \<or> (k < length vec \<and>
               (\<exists>m. last = [take m (vec ! k)] \<and> 0 < m \<and> m < length (vec ! k)))))"
proof -
  from LogdWrite_writes [OF assms(1)] obtain new where
    new: "writes st' = writes st @ new"
         "\<forall>w \<in> set new. payload (fst w) = Dropped_event (dropped st) \<or>
                          payload (fst w) = Iov (fill_newVec K 0 vec)"
    by blast
  with assms(2,3) have nv: "newVec = fill_newVec K 0 vec" by auto
  have c: "concat newVec = take (LOGGER_ENTRY_MAX_PAYLOAD K) (concat vec)"
    using fill_newVec_concat [of 0 K vec] nv by simp
  then have "length (concat newVec) = min (length (concat vec)) (LOGGER_ENTRY_MAX_PAYLOAD K)"
    by simp
  then have s: "sum_list (map length newVec) =
                  min (sum_list (map length vec)) (LOGGER_ENTRY_MAX_PAYLOAD K)"
    by (simp add: length_concat)
  from fill_newVec_shape [of 0 K vec] nv
  have "\<exists>k last. newVec = take k vec @ last \<and> k \<le> length vec \<and>
            (last = [] \<or> (k < length vec \<and>
               (\<exists>m. last = [take m (vec ! k)] \<and> 0 < m \<and> m < length (vec ! k))))"
    by simp
  moreover have "sum_list (map length newVec) \<le> LOGGER_ENTRY_MAX_PAYLOAD K" using s by simp
  moreover have "LOGGER_ENTRY_MAX_PAYLOAD K \<le> 4096 \<longrightarrow> sum_list (map length newVec) \<le> 4096"
    using s by auto
  ultimately show ?thesis using c s by blast
qed

lemma LogdWrite_long_message:
  "LogdWrite android app_env (idle\<lparr>syscalls := [Ok 4079]\<rparr>) LOG_ID_MAIN ts0 long_message =
     Some (4068, idle\<lparr>writes :=
       [(main_dgram [[CHR 0x04], ''tag'' @ [NUL], replicate 4063 (CHR ''x'')], Ok 4079)]\<rparr>)"
  by (simp add: LogdWrite_eval long_message_def)

theorem LogdWrite_payload_capped_witness:
  "LogdWrite android app_env (idle\<lparr>syscalls := [Ok 4079]\<rparr>) LOG_ID_MAIN ts0 long_message =
     Some (4068, idle\<lparr>writes :=
       [(main_dgram [[CHR 0x04], ''tag'' @ [NUL], replicate 4063 (CHR ''x'')], Ok 4079)]\<rparr>) \<and>
   sum_list (map length long_message) = 5005 \<and>
   sum_list (map length [[CHR 0x04], ''tag'' @ [NUL], replicate 4063 (CHR ''x'')]) = 4068 \<and>
   concat [[CHR 0x04], ''tag'' @ [NUL], replicate 4063 (CHR ''x'')] =
     take 4068 (concat long_message)"
  using LogdWrite_payload_capped [OF LogdWrite_long_message,
          of "(main_dgram [[CHR 0x04], ''tag'' @ [NUL], replicate 4063 (CHR ''x'')], Ok 4079)"
             "[[CHR 0x04], ''tag'' @ [NUL], replicate 4063 (CHR ''x'')]"]
        LogdWrite_long_message
  by (simp add: idle_def main_dgram_def android_def long_message_def)

subsection \<open>The value returned\<close>

text \<open>
  Claim C3, amended. When the socket of the partition is open and the caller is not logd,
  \<^verbatim>\<open>LogdWrite\<close> returns as soon as the kernel gives four answers that are not \<^verbatim>\<open>EINTR\<close>, and
  what it returns is decided by the last \<^verbatim>\<open>writev\<close> of the record: a result \<open>n\<close> larger than
  the header size gives \<open>n\<close> minus the header size, so a record with a non-empty payload that
  is accepted in full gives exactly the size of the payload sent; a failure gives the negated
  \<^verbatim>\<open>errno\<close>, a negative number that carries the reason (and is \<open>-1\<close> only for \<^verbatim>\<open>EPERM\<close>).
  The record sent starts with the packed header: the partition in 8 bits, the thread id in 16
  bits, the seconds and the nanoseconds of the timestamp in 32 bits each.
\<close>

theorem LogdWrite_return_value:
  assumes "0 \<le> (if logId = LOG_ID_SECURITY then BlockingSocket env else NonBlockingSocket env)"
      and "getuid env \<noteq> AID_LOGD K"
  shows "(4 \<le> length (answers (syscalls st)) \<longrightarrow>
            (\<exists>ret st'. LogdWrite K env st logId ts vec = Some (ret, st'))) \<and>
         (\<forall>ret st'. LogdWrite K env st logId ts vec = Some (ret, st') \<longrightarrow>
            (\<exists>r. writes st' \<noteq> [] \<and>
               last (writes st') =
                 (\<lparr>hdr = (make_header K env logId ts),
                   payload = Iov (fill_newVec K 0 vec)\<rparr>, r) \<and>
               (case r of
                  Ok n \<Rightarrow>
                    (sizeof_header K < n \<longrightarrow> ret = int n - int (sizeof_header K)) \<and>
                    (n = sizeof_header K + sum_list (map length (fill_newVec K 0 vec)) \<and>
                     0 < sum_list (map length (fill_newVec K 0 vec)) \<longrightarrow>
                       ret = int (sum_list (map length (fill_newVec K 0 vec))))
                | Failed e \<Rightarrow> ret = - errno_num e \<and> ret < 0)))"
proof (intro conjI allI impI)
  assume "4 \<le> length (answers (syscalls st))"
  then show "\<exists>ret st'. LogdWrite K env st logId ts vec = Some (ret, st')"
    by (rule LogdWrite_returns)
next
  fix ret st'
  assume run: "LogdWrite K env st logId ts vec = Some (ret, st')"
  from LogdWrite_last_write [OF run assms] obtain r where
    r: "writes st' \<noteq> []"
       "last (writes st') =
          (\<lparr>hdr = (make_header K env logId ts),
            payload = Iov (fill_newVec K 0 vec)\<rparr>, r)"
       "ret = (case r of
                 Ok n \<Rightarrow> if int (sizeof_header K) < int n then int n - int (sizeof_header K)
                         else int n
               | Failed e \<Rightarrow> - errno_num e)"
    by blast
  have "case r of
          Ok n \<Rightarrow>
            (sizeof_header K < n \<longrightarrow> ret = int n - int (sizeof_header K)) \<and>
            (n = sizeof_header K + sum_list (map length (fill_newVec K 0 vec)) \<and>
             0 < sum_list (map length (fill_newVec K 0 vec)) \<longrightarrow>
               ret = int (sum_list (map length (fill_newVec K 0 vec))))
        | Failed e \<Rightarrow> ret = - errno_num e \<and> ret < 0"
  proof (cases r)
    case (Ok n)
    with r(3) show ?thesis by auto
  next
    case (Failed e)
    with r(3) errno_num_pos [of e] show ?thesis by simp
  qed
  with r(1,2) show "\<exists>r. writes st' \<noteq> [] \<and>
               last (writes st') =
                 (\<lparr>hdr = (make_header K env logId ts),
                   payload = Iov (fill_newVec K 0 vec)\<rparr>, r) \<and>
               (case r of
                  Ok n \<Rightarrow>
                    (sizeof_header K < n \<longrightarrow> ret = int n - int (sizeof_header K)) \<and>
                    (n = sizeof_header K + sum_list (map length (fill_newVec K 0 vec)) \<and>
                     0 < sum_list (map length (fill_newVec K 0 vec)) \<longrightarrow>
                       ret = int (sum_list (map length (fill_newVec K 0 vec))))
                | Failed e \<Rightarrow> ret = - errno_num e \<and> ret < 0)"
    by blast
qed

lemma LogdWrite_hello:
  "LogdWrite android app_env (idle\<lparr>syscalls := [Ok 19]\<rparr>) LOG_ID_MAIN ts0 hello =
     Some (8, idle\<lparr>writes := [(main_dgram hello, Ok 19)]\<rparr>)"
  by (simp add: LogdWrite_eval hello_def NUL_def)

lemma LogdWrite_hello_EAGAIN:
  "LogdWrite android app_env (idle\<lparr>syscalls := [Failed EAGAIN]\<rparr>) LOG_ID_MAIN ts0 hello =
     Some (- 11, idle\<lparr>dropped := 1, writes := [(main_dgram hello, Failed EAGAIN)]\<rparr>)"
  by (simp add: LogdWrite_eval hello_def NUL_def)

theorem LogdWrite_return_value_witness:
  "LogdWrite android app_env (idle\<lparr>syscalls := [Ok 19]\<rparr>) LOG_ID_MAIN ts0 hello =
     Some (8, idle\<lparr>writes := [(main_dgram hello, Ok 19)]\<rparr>) \<and>
   sizeof_header android + sum_list (map length (fill_newVec android 0 hello)) = 19 \<and>
   LogdWrite android app_env (idle\<lparr>syscalls := [Failed EAGAIN]\<rparr>) LOG_ID_MAIN ts0 hello =
     Some (- errno_num EAGAIN,
           idle\<lparr>dropped := 1, writes := [(main_dgram hello, Failed EAGAIN)]\<rparr>) \<and>
   0 \<le> NonBlockingSocket app_env \<and> getuid app_env \<noteq> AID_LOGD android"
  using LogdWrite_return_value [of LOG_ID_MAIN app_env android "idle\<lparr>syscalls := [Ok 19]\<rparr>"
          ts0 hello]
        LogdWrite_hello LogdWrite_hello_EAGAIN
  by (simp add: hello_def android_def app_env_def NUL_def)

text \<open>
  The claim as stated fails: a write that the kernel rejects with \<^verbatim>\<open>EAGAIN\<close> makes
  \<^verbatim>\<open>LogdWrite\<close> return \<open>-11\<close>, not \<open>-1\<close>.
\<close>

theorem LogdWrite_rejected_not_minus_one:
  "LogdWrite android app_env (idle\<lparr>syscalls := [Failed EAGAIN]\<rparr>) LOG_ID_MAIN ts0 hello =
     Some (- 11, idle\<lparr>dropped := 1, writes := [(main_dgram hello, Failed EAGAIN)]\<rparr>) \<and>
   (- 11 :: int) \<noteq> - 1"
  using LogdWrite_hello_EAGAIN by simp

subsection \<open>Calls made by logd\<close>




lemma writev_consumes:
  "writev st d = Some (r, st') \<Longrightarrow>
     length (answers (syscalls st)) = Suc (length (answers (syscalls st')))"
  by (auto simp: writev_def split: option.splits dest!: TEMP_FAILURE_RETRY_Some)

lemma Reconnect_consumes:
  "Reconnect st = Some st' \<Longrightarrow>
     length (answers (syscalls st)) = Suc (length (answers (syscalls st')))"
  by (auto simp: Reconnect_def split: option.splits dest!: TEMP_FAILURE_RETRY_Some)

lemma report_dropped_consumes:
  assumes "report_dropped K env st header snapshot = Some st'"
  shows "length (answers (syscalls st)) \<le> Suc (length (answers (syscalls st')))"
proof (cases "snapshot \<noteq> 0 \<and> liblog_loggable env")
  case False
  with assms show ?thesis by (simp add: report_dropped_def)
next
  case True
  let ?d = "\<lparr>hdr = header\<lparr>hdr_id := log_id_byte K LOG_ID_EVENTS\<rparr>, payload = Dropped_event snapshot\<rparr>"
  from assms True obtain r st1 where w: "writev st ?d = Some (r, st1)"
    by (auto simp: report_dropped_def split: option.splits)
  from assms True w have "syscalls st' = syscalls st1"
    by (auto simp: report_dropped_def split: if_splits)
  with writev_consumes [OF w] show ?thesis by simp
qed

lemma write_record_consumes:
  assumes "write_record st d = Some (r, st')"
  shows "length (answers (syscalls st)) \<le> length (answers (syscalls st')) + 3"
proof -
  from assms obtain r1 st1 where w1: "writev st d = Some (r1, st1)"
    by (auto simp: write_record_def split: option.splits)
  show ?thesis
  proof (cases "\<exists>e. r1 = Failed e \<and> errno_num e \<noteq> errno_num EAGAIN")
    case False
    with assms w1 have "st' = st1"
      by (auto simp: write_record_def split: sys_result.splits if_splits)
    with writev_consumes [OF w1] show ?thesis by simp
  next
    case True
    with assms w1 obtain st2 where
      rc: "Reconnect st1 = Some st2" and w2: "writev st2 d = Some (r, st')"
      by (auto simp: write_record_def split: option.splits)
    from writev_consumes [OF w1] Reconnect_consumes [OF rc] writev_consumes [OF w2]
    show ?thesis by simp
  qed
qed

lemma LogdWrite_consumes:
  assumes "LogdWrite K env st logId ts vec = Some (ret, st')"
  shows "length (answers (syscalls st)) \<le> length (answers (syscalls st')) + 4"
proof (cases "(if logId = LOG_ID_SECURITY then BlockingSocket env else NonBlockingSocket env) < 0
              \<or> getuid env = AID_LOGD K")
  case True
  with assms have "st' = st"
    by (auto simp: LogdWrite_def Let_def split: if_splits)
  then show ?thesis by simp
next
  case False
  then have "0 \<le> (if logId = LOG_ID_SECURITY then BlockingSocket env
                    else NonBlockingSocket env)" "getuid env \<noteq> AID_LOGD K"
    by auto
  from LogdWrite_phases [OF assms this] obtain st1 r st2 where
    rep: "report_dropped K env (st\<lparr>dropped := 0\<rparr>)
            (make_header K env logId ts) (dropped st) = Some st1" and
    wr: "write_record st1
           \<lparr>hdr = (make_header K env logId ts),
            payload = Iov (fill_newVec K 0 vec)\<rparr> = Some (r, st2)" and
    fin: "finish_write K r st2 = (ret, st')"
    by blast
  from report_dropped_consumes [OF rep] write_record_consumes [OF wr] finish_write_frame [OF fin]
  show ?thesis by simp
qed

lemma LogdWrite_all_returns:
  "4 * length calls \<le> length (answers (syscalls st)) \<Longrightarrow>
   \<exists>rets st'. LogdWrite_all K env st calls = Some (rets, st')"
proof (induction calls arbitrary: st)
  case Nil
  then show ?case by simp
next
  case (Cons c cs)
  then have "4 \<le> length (answers (syscalls st))" by simp
  from LogdWrite_returns [OF this] obtain ret st1 where
    c: "LogdWrite K env st (fst c) (fst (snd c)) (snd (snd c)) = Some (ret, st1)"
    by blast
  from LogdWrite_consumes [OF c] Cons.prems
  have "4 * length cs \<le> length (answers (syscalls st1))" by simp
  from Cons.IH [OF this] obtain rets st' where "LogdWrite_all K env st1 cs = Some (rets, st')"
    by blast
  with c show ?case by simp
qed

subsection \<open>The dropped counter\<close>

text \<open>
  Claim C9, amended. Let both sockets be open and the caller not be logd. A sequence of calls
  of \<^verbatim>\<open>LogdWrite\<close> returns when the kernel gives four answers per call. While the tag
  \<^verbatim>\<open>liblog\<close> is loggable, no drop is lost: after any sequence of calls the counter plus the
  drops reported since the start equals the counter at the start plus the number of calls that
  returned a negative value, which are the calls whose \<^verbatim>\<open>writev\<close> failed (all counts modulo
  \<open>2\<^sup>3\<^sup>2\<close>, as the counter). While \<^verbatim>\<open>liblog\<close> is not loggable, a call reports nothing and
  discards the count it found: the counter ends at 1 when the call's \<^verbatim>\<open>writev\<close> failed and at
  0 otherwise.
\<close>

theorem dropped_accounting:
  assumes "0 \<le> BlockingSocket env" and "0 \<le> NonBlockingSocket env"
      and "getuid env \<noteq> AID_LOGD K"
  shows "(4 * length calls \<le> length (answers (syscalls st)) \<longrightarrow>
            (\<exists>rets st'. LogdWrite_all K env st calls = Some (rets, st'))) \<and>
         (liblog_loggable env \<longrightarrow>
            (\<forall>rets st'. LogdWrite_all K env st calls = Some (rets, st') \<longrightarrow>
               dropped st' + reported K (writes st') =
                 dropped st + reported K (writes st) +
                 of_nat (length (filter (\<lambda>ret. ret < 0) rets)))) \<and>
         (\<not> liblog_loggable env \<longrightarrow>
            (\<forall>ret st'. LogdWrite K env st logId ts vec = Some (ret, st') \<longrightarrow>
               dropped st' = (if ret < 0 then 1 else 0) \<and>
               reported K (writes st') = reported K (writes st)))"
proof (intro conjI allI impI)
  assume "4 * length calls \<le> length (answers (syscalls st))"
  then show "\<exists>rets st'. LogdWrite_all K env st calls = Some (rets, st')"
    by (rule LogdWrite_all_returns)
next
  fix rets st'
  assume "liblog_loggable env" "LogdWrite_all K env st calls = Some (rets, st')"
  with assms show "dropped st' + reported K (writes st') =
                 dropped st + reported K (writes st) +
                 of_nat (length (filter (\<lambda>ret. ret < 0) rets))"
    by (rule LogdWrite_all_dropped)
next
  fix ret st'
  assume quiet: "\<not> liblog_loggable env"
     and run: "LogdWrite K env st logId ts vec = Some (ret, st')"
  have sock: "0 \<le> (if logId = LOG_ID_SECURITY then BlockingSocket env
                      else NonBlockingSocket env)"
    using assms(1,2) by simp
  let ?header = "(make_header K env logId ts)"
  from LogdWrite_phases [OF run sock assms(3)] obtain st1 r st2 where
    rep: "report_dropped K env (st\<lparr>dropped := 0\<rparr>) ?header (dropped st) = Some st1" and
    wr: "write_record st1 \<lparr>hdr = ?header, payload = Iov (fill_newVec K 0 vec)\<rparr> = Some (r, st2)" and
    fin: "finish_write K r st2 = (ret, st')"
    by blast
  from report_dropped_Some [OF rep] quiet have st1: "st1 = st\<lparr>dropped := 0\<rparr>" by simp
  from write_record_Some [OF wr] obtain new where
    two: "dropped st2 = dropped st1" "writes st2 = writes st1 @ new"
         "\<forall>w \<in> set new. \<exists>vec. payload (fst w) = Iov vec"
    by auto
  from finish_write_dropped [OF fin] finish_write_frame [OF fin]
  have three: "dropped st' = dropped st2 + (if ret < 0 then 1 else 0)" "writes st' = writes st2"
    by simp_all
  from st1 two three show "dropped st' = (if ret < 0 then 1 else 0)" by simp
  from st1 two three reported_Iov [OF two(3)]
  show "reported K (writes st') = reported K (writes st)" by (simp add: reported_append)
qed

lemma LogdWrite_all_example:
  "LogdWrite_all android app_env (idle\<lparr>syscalls := [Failed EAGAIN, Ok 20, Ok 19]\<rparr>)
     [(LOG_ID_MAIN, ts0, hello), (LOG_ID_MAIN, ts0, hello)] =
   Some ([- 11, 8],
         idle\<lparr>writes :=
           [(main_dgram hello, Failed EAGAIN),
            (\<lparr>hdr = app_header 2,
              payload = Dropped_event 1\<rparr>, Ok 20),
            (main_dgram hello, Ok 19)]\<rparr>)"
  by (simp add: LogdWrite_eval hello_def NUL_def)

lemma LogdWrite_quiet_example:
  "LogdWrite android quiet_env (idle\<lparr>dropped := 3, syscalls := [Ok 19]\<rparr>) LOG_ID_MAIN ts0 hello =
     Some (8, idle\<lparr>writes := [(main_dgram hello, Ok 19)]\<rparr>)"
  by (simp add: LogdWrite_eval quiet_env_def hello_def NUL_def)

theorem dropped_accounting_witness:
  "0 \<le> BlockingSocket app_env \<and> 0 \<le> NonBlockingSocket app_env \<and>
   getuid app_env \<noteq> AID_LOGD android \<and> liblog_loggable app_env \<and>
   LogdWrite_all android app_env (idle\<lparr>syscalls := [Failed EAGAIN, Ok 20, Ok 19]\<rparr>)
     [(LOG_ID_MAIN, ts0, hello), (LOG_ID_MAIN, ts0, hello)] =
   Some ([- 11, 8],
         idle\<lparr>writes :=
           [(main_dgram hello, Failed EAGAIN),
            (\<lparr>hdr = app_header 2,
              payload = Dropped_event 1\<rparr>, Ok 20),
            (main_dgram hello, Ok 19)]\<rparr>) \<and>
   reported android
     [(main_dgram hello, Failed EAGAIN),
      (\<lparr>hdr = app_header 2,
        payload = Dropped_event 1\<rparr>, Ok 20),
      (main_dgram hello, Ok 19)] = 1 \<and>
   \<not> liblog_loggable quiet_env \<and>
   LogdWrite android quiet_env (idle\<lparr>dropped := 3, syscalls := [Ok 19]\<rparr>) LOG_ID_MAIN ts0 hello =
     Some (8, idle\<lparr>writes := [(main_dgram hello, Ok 19)]\<rparr>)"
  using dropped_accounting [of app_env android
          "[(LOG_ID_MAIN, ts0, hello), (LOG_ID_MAIN, ts0, hello)]"
          "idle\<lparr>syscalls := [Failed EAGAIN, Ok 20, Ok 19]\<rparr>"]
        LogdWrite_all_example LogdWrite_quiet_example
  by (simp add: app_env_def quiet_env_def android_def main_dgram_def)

text \<open>
  The claim as stated fails: with \<^verbatim>\<open>liblog\<close> not loggable, a call that finds three pending
  drops resets the counter and reports nothing, so the three drops are lost.
\<close>

theorem dropped_lost_when_not_loggable:
  "LogdWrite android quiet_env (idle\<lparr>dropped := 3, syscalls := [Ok 19]\<rparr>) LOG_ID_MAIN ts0 hello =
     Some (8, idle\<lparr>writes := [(main_dgram hello, Ok 19)]\<rparr>) \<and>
   dropped (idle\<lparr>writes := [(main_dgram hello, Ok 19)]\<rparr>) +
     reported android (writes (idle\<lparr>writes := [(main_dgram hello, Ok 19)]\<rparr>)) = 0 \<and>
   dropped (idle\<lparr>dropped := 3, syscalls := [Ok 19]\<rparr>) +
     reported android (writes (idle\<lparr>dropped := 3, syscalls := [Ok 19]\<rparr>)) = 3 \<and>
   (0 :: 32 word) \<noteq> 3"
  using LogdWrite_quiet_example by (simp add: idle_def main_dgram_def)

section \<open>Properties of \<^verbatim>\<open>write_to_log\<close>\<close>

subsection \<open>Permission to write to the security log\<close>

lemma scan_groups_zero:
  "(scan_groups K groups n = 0) =
     (\<forall>i<n. groups ! i \<noteq> AID_LOG K \<and> groups ! i \<noteq> AID_SECURITY_LOG_WRITER K)"
  by (induction n) (auto simp: less_Suc_eq)

lemma scan_groups_approved:
  "(scan_groups K (getgroups env) (length (getgroups env)) = 0) = (\<not> approved_by_group K env)"
  by (auto simp: scan_groups_zero approved_by_group_def in_set_conv_nth)

lemma check_log_uid_permissions_eq:
  "check_log_uid_permissions K env =
     (if approved_by_id K env then 0
      else if getgroups env = [] then - errno_num EPERM
      else if \<not> calloc_ok env then - errno_num ENOMEM
      else if approved_by_group K env then 0
      else - errno_num EPERM)"
  using scan_groups_approved [of K env]
  by (simp add: check_log_uid_permissions_def approved_by_id_def approved_id_def Let_def)

lemma approved_by_group_Nil: "getgroups env = [] \<Longrightarrow> \<not> approved_by_group K env"
  by (simp add: approved_by_group_def)

text \<open>
  Claim C1, amended. The permission check returns 0 exactly for a principal approved by its
  uid, euid, gid or egid, and for one approved by a supplementary group when the array of
  groups can be allocated. A write to the security partition whose first iovec holds less
  than 4 bytes is rejected with \<^verbatim>\<open>-EINVAL\<close> before the check; a process that is approved by
  none of its four ids, has supplementary groups and cannot allocate the array is rejected
  with \<^verbatim>\<open>-ENOMEM\<close>, whatever its groups are. In every other case the write is rejected with
  \<^verbatim>\<open>-EPERM\<close> unless the principal is approved; an approved principal is rejected with
  \<^verbatim>\<open>-EPERM\<close> while security logging is disabled, and otherwise the write proceeds to
  \<^verbatim>\<open>LogdWrite\<close> and \<^verbatim>\<open>PmsgWrite\<close>.
\<close>

theorem security_write_permission:
  "(check_log_uid_permissions K env = 0) =
     (approved_by_id K env \<or> (calloc_ok env \<and> approved_by_group K env)) \<and>
   write_to_log K env st LOG_ID_SECURITY (v0 # vs) timestamp =
     (if length v0 < 4 then Some (- errno_num EINVAL, st)
      else if \<not> approved_by_id K env \<and> getgroups env \<noteq> [] \<and> \<not> calloc_ok env
        then Some (- errno_num ENOMEM, st)
      else if \<not> approved K env then Some (- errno_num EPERM, st)
      else if \<not> android_log_security env then Some (- errno_num EPERM, st)
      else write_logd_pmsg K env st LOG_ID_SECURITY
             (case timestamp of None \<Rightarrow> clock_realtime env | Some t \<Rightarrow> t) (v0 # vs))"
proof
  show "(check_log_uid_permissions K env = 0) =
          (approved_by_id K env \<or> (calloc_ok env \<and> approved_by_group K env))"
    using approved_by_group_Nil [of env K]
    by (auto simp: check_log_uid_permissions_eq)
next
  show "write_to_log K env st LOG_ID_SECURITY (v0 # vs) timestamp =
     (if length v0 < 4 then Some (- errno_num EINVAL, st)
      else if \<not> approved_by_id K env \<and> getgroups env \<noteq> [] \<and> \<not> calloc_ok env
        then Some (- errno_num ENOMEM, st)
      else if \<not> approved K env then Some (- errno_num EPERM, st)
      else if \<not> android_log_security env then Some (- errno_num EPERM, st)
      else write_logd_pmsg K env st LOG_ID_SECURITY
             (case timestamp of None \<Rightarrow> clock_realtime env | Some t \<Rightarrow> t) (v0 # vs))"
    using approved_by_group_Nil [of env K]
    by (auto simp: write_to_log_def check_log_uid_permissions_eq approved_def Let_def)
qed

lemmas write_to_log_eval =
  write_to_log_def write_logd_pmsg_def PmsgWrite_def check_log_uid_permissions_def
  LogdWrite_eval ts0_def

lemma security_write_system:
  "write_to_log android system_env (idle\<lparr>syscalls := [Ok 17]\<rparr>) LOG_ID_SECURITY security_event
     None =
   Some (6, idle\<lparr>writes := [(security_dgram, Ok 17)],
                  pmsg := [(LOG_ID_SECURITY, ts0, security_event)]\<rparr>)"
  by (simp add: write_to_log_eval system_env_def security_event_def security_dgram_def)

lemma security_write_app:
  "write_to_log android app_env (idle\<lparr>syscalls := [Ok 17]\<rparr>) LOG_ID_SECURITY security_event
     None = Some (- 1, idle\<lparr>syscalls := [Ok 17]\<rparr>)"
  by (simp add: write_to_log_eval security_event_def)

lemma security_write_no_memory:
  "write_to_log android log_group_env (idle\<lparr>syscalls := [Ok 17]\<rparr>) LOG_ID_SECURITY
     security_event None = Some (- 12, idle\<lparr>syscalls := [Ok 17]\<rparr>)"
  by (simp add: write_to_log_eval log_group_env_def security_event_def)

lemma security_write_short_tag:
  "write_to_log android app_env (idle\<lparr>syscalls := [Ok 17]\<rparr>) LOG_ID_SECURITY
     [[CHR 0x01, CHR 0x02], [CHR 0x2A]] None = Some (- 22, idle\<lparr>syscalls := [Ok 17]\<rparr>)"
  by (simp add: write_to_log_eval)

theorem security_write_permission_witness:
  "approved android system_env \<and> android_log_security system_env \<and>
   check_log_uid_permissions android system_env = 0 \<and>
   write_to_log android system_env (idle\<lparr>syscalls := [Ok 17]\<rparr>) LOG_ID_SECURITY security_event
     None =
   Some (6, idle\<lparr>writes := [(security_dgram, Ok 17)],
                  pmsg := [(LOG_ID_SECURITY, ts0, security_event)]\<rparr>) \<and>
   \<not> approved android app_env \<and>
   write_to_log android app_env (idle\<lparr>syscalls := [Ok 17]\<rparr>) LOG_ID_SECURITY security_event
     None = Some (- errno_num EPERM, idle\<lparr>syscalls := [Ok 17]\<rparr>)"
  using security_write_permission [of android system_env "idle\<lparr>syscalls := [Ok 17]\<rparr>"
          "[CHR 0x01, CHR 0x02, CHR 0x03, CHR 0x04]" "[[CHR 0x00, CHR 0x2A]]" None]
        security_write_permission [of android app_env "idle\<lparr>syscalls := [Ok 17]\<rparr>"
          "[CHR 0x01, CHR 0x02, CHR 0x03, CHR 0x04]" "[[CHR 0x00, CHR 0x2A]]" None]
        security_write_system security_write_app
  by (simp add: approved_def approved_by_id_def approved_by_group_def approved_id_def
        system_env_def app_env_def android_def security_event_def)

text \<open>
  The claim as stated fails twice. A principal approved through the supplementary group
  \<^verbatim>\<open>AID_LOG\<close>, with security logging enabled, is rejected with \<^verbatim>\<open>-ENOMEM\<close> (\<open>-12\<close>) when
  \<^verbatim>\<open>calloc\<close> fails; and a principal that is not approved is rejected with \<^verbatim>\<open>-EINVAL\<close>
  (\<open>-22\<close>), not \<^verbatim>\<open>-EPERM\<close>, when the first iovec holds 2 bytes.
\<close>

theorem security_write_other_rejections:
  "approved android log_group_env \<and> android_log_security log_group_env \<and>
   write_to_log android log_group_env (idle\<lparr>syscalls := [Ok 17]\<rparr>) LOG_ID_SECURITY
     security_event None = Some (- 12, idle\<lparr>syscalls := [Ok 17]\<rparr>) \<and>
   \<not> approved android app_env \<and>
   write_to_log android app_env (idle\<lparr>syscalls := [Ok 17]\<rparr>) LOG_ID_SECURITY
     [[CHR 0x01, CHR 0x02], [CHR 0x2A]] None = Some (- 22, idle\<lparr>syscalls := [Ok 17]\<rparr>) \<and>
   - errno_num EPERM = - 1"
  using security_write_no_memory security_write_short_tag
  by (simp add: approved_def approved_by_id_def approved_by_group_def approved_id_def
        log_group_env_def app_env_def android_def)

subsection \<open>The tag of a binary event\<close>

text \<open>
  Claim C5. For the events, stats and security partitions, a first iovec of less than 4 bytes
  makes \<^verbatim>\<open>write_to_log\<close> return \<^verbatim>\<open>-EINVAL\<close> with the state untouched: nothing has been
  sent and no system call made. With a first iovec of at least 4 bytes the tag check passes:
  the record goes on to \<^verbatim>\<open>LogdWrite\<close> and \<^verbatim>\<open>PmsgWrite\<close>, for the security partition after
  the permission check and the test of \<^verbatim>\<open>__android_log_security\<close>.
\<close>

theorem binary_event_tag_check:
  assumes "log_id = LOG_ID_EVENTS \<or> log_id = LOG_ID_STATS \<or> log_id = LOG_ID_SECURITY"
  shows "(length v0 < 4 \<longrightarrow>
            write_to_log K env st log_id (v0 # vs) timestamp = Some (- errno_num EINVAL, st)) \<and>
         (4 \<le> length v0 \<longrightarrow>
            write_to_log K env st log_id (v0 # vs) timestamp =
              (if log_id = LOG_ID_SECURITY \<and> check_log_uid_permissions K env < 0
                 then Some (check_log_uid_permissions K env, st)
               else if log_id = LOG_ID_SECURITY \<and> \<not> android_log_security env
                 then Some (- errno_num EPERM, st)
               else write_logd_pmsg K env st log_id
                      (case timestamp of None \<Rightarrow> clock_realtime env | Some t \<Rightarrow> t)
                      (v0 # vs)))"
  using assms by (auto simp: write_to_log_def Let_def)

lemma events_write_short_tag:
  "write_to_log android app_env (idle\<lparr>syscalls := [Ok 14]\<rparr>) LOG_ID_EVENTS
     [[CHR 0x01, CHR 0x02, CHR 0x03]] None = Some (- 22, idle\<lparr>syscalls := [Ok 14]\<rparr>)"
  by (simp add: write_to_log_eval)

lemma events_write:
  "write_to_log android app_env (idle\<lparr>syscalls := [Ok 17]\<rparr>) LOG_ID_EVENTS security_event
     None =
   Some (6, idle\<lparr>writes := [(security_dgram\<lparr>hdr := app_header 2\<rparr>,
                               Ok 17)],
                  pmsg := [(LOG_ID_EVENTS, ts0, security_event)]\<rparr>)"
  by (simp add: write_to_log_eval security_event_def security_dgram_def)

theorem binary_event_tag_check_witness:
  "write_to_log android app_env (idle\<lparr>syscalls := [Ok 14]\<rparr>) LOG_ID_EVENTS
     [[CHR 0x01, CHR 0x02, CHR 0x03]] None =
     Some (- errno_num EINVAL, idle\<lparr>syscalls := [Ok 14]\<rparr>) \<and>
   write_to_log android app_env (idle\<lparr>syscalls := [Ok 17]\<rparr>) LOG_ID_EVENTS security_event
     None =
   Some (6, idle\<lparr>writes := [(security_dgram\<lparr>hdr := app_header 2\<rparr>,
                               Ok 17)],
                  pmsg := [(LOG_ID_EVENTS, ts0, security_event)]\<rparr>)"
  using binary_event_tag_check [of LOG_ID_EVENTS "[CHR 0x01, CHR 0x02, CHR 0x03]" android app_env
          "idle\<lparr>syscalls := [Ok 14]\<rparr>" "[]" None]
        events_write
  by simp

subsection \<open>Partitions that are not accepted\<close>










section \<open>Properties of \<^verbatim>\<open>issueReinit\<close>\<close>

lemma cstr_no_NUL: "NUL \<notin> set s \<Longrightarrow> cstr s = s"
  by (auto simp: cstr_def takeWhile_eq_all_conv)

lemma cstr_append_NUL: "NUL \<notin> set s \<Longrightarrow> cstr (s @ NUL # t) = s"
  by (induction s) (auto simp: cstr_def)

lemma cstr_success: "cstr success = ''success''"
  by (simp add: success_def cstr_def NUL_def)

lemma take_pad_eq:
  assumes "NUL \<notin> set s" "length s = n"
  shows "(take n (cstr (take n (bytes @ replicate n NUL))) = s) = prefix s bytes"
proof
  define b where "b = take n (bytes @ replicate n NUL)"
  assume "take n (cstr (take n (bytes @ replicate n NUL))) = s"
  then have eq: "take n (cstr b) = s" by (simp add: b_def)
  have lb: "length b = n" by (simp add: b_def)
  have "n \<le> length (cstr b)" using eq assms(2) by (metis length_take min.cobounded1)
  moreover have "prefix (cstr b) b" unfolding cstr_def by (rule takeWhile_is_prefix)
  then obtain zs where zs: "b = cstr b @ zs" by (auto simp: prefix_def)
  then have "length b = length (cstr b) + length zs" by (metis length_append)
  ultimately have "length zs = 0" using lb by arith
  then have "zs = []" by simp
  with zs have "cstr b = b" by simp
  with eq lb have b: "b = s" by simp
  show "prefix s bytes"
  proof (cases "n \<le> length bytes")
    case True
    with b have "take n bytes = s" by (simp add: b_def)
    then show ?thesis by (metis take_is_prefix)
  next
    case False
    then have "b = bytes @ replicate (n - length bytes) NUL" by (simp add: b_def)
    moreover from False have "NUL \<in> set (replicate (n - length bytes) NUL)" by simp
    ultimately have "NUL \<in> set b" by simp
    with b assms(1) show ?thesis by simp
  qed
next
  assume "prefix s bytes"
  then obtain t where "bytes = s @ t" by (auto simp: prefix_def)
  with assms have "take n (bytes @ replicate n NUL) = s" by simp
  with assms show "take n (cstr (take n (bytes @ replicate n NUL))) = s"
    by (simp add: cstr_no_NUL)
qed

lemma strncmp_success:
  "strncmp_differ (take (length success - 1) (bytes @ replicate (length success - 1) NUL))
     success (length success - 1) = (\<not> prefix ''success'' bytes)"
proof -
  have n: "length success - 1 = 7" by (simp add: success_def)
  have "NUL \<notin> set ''success''" by (simp add: NUL_def)
  from take_pad_eq [OF this, of 7 bytes]
  have "(take 7 (cstr (take 7 (bytes @ replicate 7 NUL))) = ''success'') =
          prefix ''success'' bytes" by simp
  then show ?thesis unfolding n strncmp_differ_def cstr_success by simp
qed

lemma neg_errno_nonzero: "- errno_num e \<noteq> 0" "(- errno_num e) mod 256 \<noteq> 0"
  using errno_num_pos [of e] errno_num_small [of e]
  by (simp_all add: zmod_zminus1_eq_if)

lemma issueReinit_status:
  assumes "issueReinit env = Some (status, written)"
  shows "(status = 0) = reinit_acknowledged env \<and> (status mod 256 = 0) = (status = 0)"
proof (cases "TEMP_FAILURE_RETRY (socket_local_client env)")
  case None
  with assms show ?thesis by (simp add: issueReinit_def)
next
  case (Some c)
  show ?thesis
  proof (cases "fst c")
    case (Failed e)
    with Some assms neg_errno_nonzero [of e] show ?thesis
      by (cases c) (auto simp: issueReinit_def reinit_acknowledged_def)
  next
    case (Ok sock)
    show ?thesis
    proof (cases "TEMP_FAILURE_RETRY (write_results env)")
      case None
      with Some Ok assms show ?thesis by (cases c) (simp add: issueReinit_def)
    next
      case w: (Some w)
      show ?thesis
      proof (cases "fst w")
        case (Failed e)
        with Some Ok w assms neg_errno_nonzero [of e] show ?thesis
          by (cases c; cases w) (auto simp: issueReinit_def reinit_acknowledged_def)
      next
        case wok: (Ok n)
        show ?thesis
        proof (cases "TEMP_FAILURE_RETRY (poll env 1000)")
          case None
          with Some Ok w wok assms show ?thesis
            by (cases c; cases w) (simp add: issueReinit_def)
        next
          case p: (Some p)
          show ?thesis
          proof (cases "fst p")
            case (Failed e)
            with Some Ok w wok p assms neg_errno_nonzero [of e] show ?thesis
              by (cases c; cases w; cases p)
                 (auto simp: issueReinit_def reinit_acknowledged_def)
          next
            case pok: (Ok rp)
            show ?thesis
            proof (cases "fst rp = 0 \<or> \<not> snd rp")
              case True
              with Some Ok w wok p pok assms neg_errno_nonzero [of ETIME] show ?thesis
                by (cases c; cases w; cases p; cases rp)
                   (auto simp: issueReinit_def reinit_acknowledged_def
                         split: option.splits sys_result.splits)
            next
              case ready: False
              show ?thesis
              proof (cases "TEMP_FAILURE_RETRY (read_results env)")
                case None
                with Some Ok w wok p pok ready assms show ?thesis
                  by (cases c; cases w; cases p; cases rp) (auto simp: issueReinit_def)
              next
                case r: (Some r)
                show ?thesis
                proof (cases "fst r")
                  case (Failed e)
                  with Some Ok w wok p pok ready r assms neg_errno_nonzero [of e]
                  show ?thesis
                    by (cases c; cases w; cases p; cases rp; cases r)
                       (auto simp: issueReinit_def reinit_acknowledged_def)
                next
                  case rok: (Ok bytes)
                  with Some Ok w wok p pok ready r assms strncmp_success [of bytes]
                  show ?thesis
                    by (cases c; cases w; cases p; cases rp; cases r)
                       (auto simp: issueReinit_def reinit_acknowledged_def Let_def
                             split: if_splits)
                qed
              qed
            qed
          qed
        qed
      qed
    qed
  qed
qed

lemma issueReinit_returns:
  assumes "answers (socket_local_client env) \<noteq> []" "answers (write_results env) \<noteq> []"
          "answers (poll env 1000) \<noteq> []" "answers (read_results env) \<noteq> []"
  shows "\<exists>status written. issueReinit env = Some (status, written)"
proof -
  from assms obtain c c' w w' p p' r r' where
    "TEMP_FAILURE_RETRY (socket_local_client env) = Some (c, c')"
    "TEMP_FAILURE_RETRY (write_results env) = Some (w, w')"
    "TEMP_FAILURE_RETRY (poll env 1000) = Some (p, p')"
    "TEMP_FAILURE_RETRY (read_results env) = Some (r, r')"
    using TEMP_FAILURE_RETRY_returns by metis
  then show ?thesis
    by (auto simp: issueReinit_def Let_def split: sys_result.splits prod.splits)
qed

lemma issueReinit_written:
  assumes "issueReinit env = Some (status, written)"
      and "TEMP_FAILURE_RETRY (socket_local_client env) = Some (Ok sock, rest)"
  shows "\<exists>r. written = [(''reinit'' @ [NUL], r)]"
  using assms
  by (auto simp: issueReinit_def reinitStr_def Let_def
           split: option.splits sys_result.splits prod.splits if_splits)

text \<open>
  Claim C6, amended. Started with \<^verbatim>\<open>--reinit\<close> as its first argument, the daemon binary
  returns what \<^verbatim>\<open>issueReinit\<close> returns. \<^verbatim>\<open>issueReinit\<close> returns as soon as each of its four
  calls gets an answer that is not \<^verbatim>\<open>EINTR\<close>; once connected it writes the seven bytes
  \<^verbatim>\<open>reinit\<close> and NUL to the control socket; and the value it returns is 0 exactly when the
  command is acknowledged: the connection and the write succeeded, a call of \<^verbatim>\<open>poll\<close> with a
  timeout of 1000 ms reported readable data, the wait starting again in full after each
  \<^verbatim>\<open>EINTR\<close>, and the bytes returned by the one \<^verbatim>\<open>read\<close> begin with \<^verbatim>\<open>success\<close>. In every other
  case (connection failure, write failure, poll failure or timeout, read failure, a first
  read that does not begin with \<^verbatim>\<open>success\<close>) the value is not 0, and not a multiple of 256, so
  the exit status seen by the parent is not 0 either.
\<close>

theorem reinit_exit_status:
  "logd_main (prog # ''--reinit'' # args) env = Return (issueReinit env) \<and>
   (answers (socket_local_client env) \<noteq> [] \<and> answers (write_results env) \<noteq> [] \<and>
    answers (poll env 1000) \<noteq> [] \<and> answers (read_results env) \<noteq> [] \<longrightarrow>
      (\<exists>status written. issueReinit env = Some (status, written))) \<and>
   (\<forall>status written. issueReinit env = Some (status, written) \<longrightarrow>
      (status = 0) = reinit_acknowledged env \<and>
      (status mod 256 = 0) = reinit_acknowledged env \<and>
      (\<forall>sock rest. TEMP_FAILURE_RETRY (socket_local_client env) = Some (Ok sock, rest) \<longrightarrow>
         (\<exists>r. written = [(''reinit'' @ [NUL], r)])))"
proof (intro conjI allI impI)
  show "logd_main (prog # ''--reinit'' # args) env = Return (issueReinit env)"
    by (simp add: logd_main_def)
next
  assume "answers (socket_local_client env) \<noteq> [] \<and> answers (write_results env) \<noteq> [] \<and>
    answers (poll env 1000) \<noteq> [] \<and> answers (read_results env) \<noteq> []"
  then show "\<exists>status written. issueReinit env = Some (status, written)"
    using issueReinit_returns by blast
next
  fix status written
  assume run: "issueReinit env = Some (status, written)"
  from issueReinit_status [OF run] show "(status = 0) = reinit_acknowledged env" by simp
  from issueReinit_status [OF run] show "(status mod 256 = 0) = reinit_acknowledged env"
    by simp
  fix sock rest
  assume "TEMP_FAILURE_RETRY (socket_local_client env) = Some (Ok sock, rest)"
  with run show "\<exists>r. written = [(''reinit'' @ [NUL], r)]" by (rule issueReinit_written)
qed

lemma issueReinit_ok: "issueReinit reinit_ok = Some (0, [(''reinit'' @ [NUL], Ok 7)])"
  by (simp add: issueReinit_def reinit_ok_def reinitStr_def success_def strncmp_differ_def
        cstr_def NUL_def poll_def readable_after_def)

lemma issueReinit_invalid:
  "issueReinit (reinit_ok\<lparr>read_results := [Ok ''Invalid'']\<rparr>) =
     Some (1, [(''reinit'' @ [NUL], Ok 7)])"
  by (simp add: issueReinit_def reinit_ok_def reinitStr_def success_def strncmp_differ_def
        cstr_def NUL_def poll_def readable_after_def)

lemma issueReinit_timeout:
  "issueReinit (reinit_ok\<lparr>poll_results := [readable_after 1500]\<rparr>) =
     Some (- 62, [(''reinit'' @ [NUL], Ok 7)])"
  by (simp add: issueReinit_def reinit_ok_def reinitStr_def poll_def readable_after_def)

lemma issueReinit_refused:
  "issueReinit (reinit_ok\<lparr>socket_local_client := [Failed ECONNREFUSED]\<rparr>) = Some (- 111, [])"
  by (simp add: issueReinit_def reinit_ok_def)

theorem reinit_exit_status_witness:
  "logd_main [''logd'', ''--reinit''] reinit_ok = Return (Some (0, [(''reinit'' @ [NUL], Ok 7)])) \<and>
   reinit_acknowledged reinit_ok \<and>
   issueReinit (reinit_ok\<lparr>read_results := [Ok ''Invalid'']\<rparr>) =
     Some (1, [(''reinit'' @ [NUL], Ok 7)]) \<and>
   \<not> reinit_acknowledged (reinit_ok\<lparr>read_results := [Ok ''Invalid'']\<rparr>) \<and>
   issueReinit (reinit_ok\<lparr>poll_results := [readable_after 1500]\<rparr>) =
     Some (- errno_num ETIME, [(''reinit'' @ [NUL], Ok 7)]) \<and>
   issueReinit (reinit_ok\<lparr>socket_local_client := [Failed ECONNREFUSED]\<rparr>) =
     Some (- errno_num ECONNREFUSED, [])"
  using reinit_exit_status [of "''logd''" "[]" reinit_ok]
        reinit_exit_status [of "''logd''" "[]" "reinit_ok\<lparr>read_results := [Ok ''Invalid'']\<rparr>"]
        issueReinit_ok issueReinit_invalid issueReinit_timeout issueReinit_refused
  by simp

lemma issueReinit_split_reply:
  "issueReinit (reinit_ok\<lparr>read_results := [Ok ''succ'', Ok ''ess'']\<rparr>) =
     Some (1, [(''reinit'' @ [NUL], Ok 7)])"
  by (simp add: issueReinit_def reinit_ok_def reinitStr_def success_def strncmp_differ_def
        cstr_def NUL_def poll_def readable_after_def)

lemma issueReinit_restarted_poll:
  "issueReinit (reinit_ok\<lparr>poll_results := [interrupted_after 900, readable_after 600]\<rparr>) =
     Some (0, [(''reinit'' @ [NUL], Ok 7)])"
  by (simp add: issueReinit_def reinit_ok_def reinitStr_def success_def strncmp_differ_def
        cstr_def NUL_def poll_def readable_after_def interrupted_after_def)

text \<open>
  The claim as stated fails in both directions. A reply \<^verbatim>\<open>success\<close> that arrives at once but
  is returned by two calls of \<^verbatim>\<open>read\<close>, four bytes and then three, gives the value 1. And a
  reply that becomes readable 1500 ms after the command, too late for one call of \<^verbatim>\<open>poll\<close>
  with a timeout of 1000 ms, gives the value 0 when a signal interrupts the first call after
  900 ms.
\<close>

theorem reinit_split_reply_and_restarted_poll:
  "issueReinit (reinit_ok\<lparr>read_results := [Ok ''succ'', Ok ''ess'']\<rparr>) =
     Some (1, [(''reinit'' @ [NUL], Ok 7)]) \<and>
   reply (reinit_ok\<lparr>read_results := [Ok ''succ'', Ok ''ess'']\<rparr>) = ''success'' \<and>
   poll (reinit_ok\<lparr>read_results := [Ok ''succ'', Ok ''ess'']\<rparr>) 1000 = [Ok (1, True)] \<and>
   issueReinit (reinit_ok\<lparr>poll_results := [interrupted_after 900, readable_after 600]\<rparr>) =
     Some (0, [(''reinit'' @ [NUL], Ok 7)]) \<and>
   readable_after (900 + 600) 1000 = Ok (0, False)"
  using issueReinit_split_reply issueReinit_restarted_poll
  by (simp add: reply_def reinit_ok_def poll_def readable_after_def)

section \<open>Properties of the logpersist script\<close>

lemma parse_args_unrecognized:
  "\<not> recognized a \<Longrightarrow> parse_args s b c (a # rest) = Bad_argument"
  by (simp add: recognized_def)

lemma prefix_drop: "prefix p (p @ v)" "drop (length p) (p @ v) = v"
  by simp_all

lemma parse_args_size:
  "parse_args s b c ((''--size='' @ v) # rest) = parse_args v b c rest"
  by simp

lemma parse_args_buffer:
  "parse_args s b c ((''--buffer='' @ v) # rest) = parse_args s v c rest"
  by simp

lemma size_valid_range:
  "size_valid sh_integer s = (\<exists>n. sh_integer s = Some n \<and> 1 \<le> n \<and> n \<le> 2048)"
  by (auto simp: size_valid_def split: option.splits)

lemma parse_args_append:
  "parse_args s b c args = Parsed s' b' c' \<Longrightarrow>
   parse_args s b c (args @ more_args) = parse_args s' b' c' more_args"
proof (induction s b c args rule: parse_args.induct)
  case (1 s b c)
  then show ?case by simp
next
  case (2 s b c a rest)
  let ?C1 = "a = ''-c'' \<or> a = ''--clear''"
  let ?C2 = "prefix ''--size='' a"
  let ?C3 = "prefix ''--rotate-count='' a"
  let ?C4 = "a = ''-n'' \<or> a = ''--size'' \<or> a = ''--rotate-count''"
  let ?C5 = "prefix ''--buffer='' a"
  let ?C6 = "a = ''-b'' \<or> a = ''--buffer''"
  define C1 where "C1 = ?C1"
  define C2 where "C2 = ?C2"
  define C3 where "C3 = ?C3"
  define C4 where "C4 = ?C4"
  define C5 where "C5 = ?C5"
  define C6 where "C6 = ?C6"
  note defs = C1_def C2_def C3_def C4_def C5_def C6_def
  consider (k1) C1 | (k2) "\<not> C1" C2 | (k3) "\<not> C1" "\<not> C2" C3
    | (k4) "\<not> C1" "\<not> C2" "\<not> C3" C4
    | (k5) "\<not> C1" "\<not> C2" "\<not> C3" "\<not> C4" C5
    | (k6) "\<not> C1" "\<not> C2" "\<not> C3" "\<not> C4" "\<not> C5" C6
    | (k7) "\<not> C1" "\<not> C2" "\<not> C3" "\<not> C4" "\<not> C5" "\<not> C6"
    by blast
  then show ?case
  proof cases
    case k1
    note c1 = k1 [unfolded defs]
    have step: "\<And>xs. parse_args s b c (a # xs) = parse_args s b True xs"
      using c1 by (subst parse_args.simps(2)) (simp only: if_True)
    from "2.prems" have "parse_args s b True rest = Parsed s' b' c'" by (simp only: step)
    from "2.IH"(1) [OF c1 this] show ?thesis by (simp only: append_Cons step)
  next
    case k2
    note c2 = k2 [unfolded defs]
    have step: "\<And>xs. parse_args s b c (a # xs) = parse_args (drop 7 a) b c xs"
      using c2 by (subst parse_args.simps(2)) (simp only: if_True if_False)
    from "2.prems" have "parse_args (drop 7 a) b c rest = Parsed s' b' c'"
      by (simp only: step)
    from "2.IH"(2) [OF c2 this] show ?thesis by (simp only: append_Cons step)
  next
    case k3
    note c3 = k3 [unfolded defs]
    have step: "\<And>xs. parse_args s b c (a # xs) = parse_args (drop 15 a) b c xs"
      using c3 by (subst parse_args.simps(2)) (simp only: if_True if_False)
    from "2.prems" have "parse_args (drop 15 a) b c rest = Parsed s' b' c'"
      by (simp only: step)
    from "2.IH"(3) [OF c3 this] show ?thesis by (simp only: append_Cons step)
  next
    case k4
    note c4 = k4 [unfolded defs]
    have step: "\<And>xs. parse_args s b c (a # xs) =
                  (case xs of [] \<Rightarrow> Shift_error | v # r \<Rightarrow> parse_args v b c r)"
      using c4 by (subst parse_args.simps(2)) (simp only: if_True if_False)
    show ?thesis
    proof (cases rest)
      case Nil
      with "2.prems" show ?thesis by (simp only: step list.case parse_result.distinct)
    next
      case (Cons v r)
      with "2.prems" have "parse_args v b c r = Parsed s' b' c'"
        by (simp only: step list.case)
      from "2.IH"(4) [OF c4 Cons this] Cons show ?thesis
        by (simp only: append_Cons step list.case)
    qed
  next
    case k5
    note c5 = k5 [unfolded defs]
    have step: "\<And>xs. parse_args s b c (a # xs) = parse_args s (drop 9 a) c xs"
      using c5 by (subst parse_args.simps(2)) (simp only: if_True if_False)
    from "2.prems" have "parse_args s (drop 9 a) c rest = Parsed s' b' c'"
      by (simp only: step)
    from "2.IH"(5) [OF c5 this] show ?thesis by (simp only: append_Cons step)
  next
    case k6
    note c6 = k6 [unfolded defs]
    have step: "\<And>xs. parse_args s b c (a # xs) =
                  (case xs of [] \<Rightarrow> Shift_error | v # r \<Rightarrow> parse_args s v c r)"
      using c6 by (subst parse_args.simps(2)) (simp only: if_True if_False)
    show ?thesis
    proof (cases rest)
      case Nil
      with "2.prems" show ?thesis by (simp only: step list.case parse_result.distinct)
    next
      case (Cons v r)
      with "2.prems" have "parse_args s v c r = Parsed s' b' c'"
        by (simp only: step list.case)
      from "2.IH"(6) [OF c6 Cons this] Cons show ?thesis
        by (simp only: append_Cons step list.case)
    qed
  next
    case k7
    note c7 = k7 [unfolded defs]
    have "parse_args s b c (a # rest) = (if a = ''-h'' \<or> a = ''--help'' then Help
                                         else Bad_argument)"
      using c7 by (subst parse_args.simps(2)) (simp only: if_True if_False)
    with "2.prems" show ?thesis by (simp only: parse_result.distinct split: if_splits)
  qed
qed

lemma logpersist_Parsed:
  assumes "parse_args ''256'' ''all'' False args = Parsed size' buffer clear"
  shows "logpersist sh_integer logcat_ok ''true'' args =
           (if size' \<noteq> [] \<and> size' \<noteq> ''256'' \<and> \<not> size_valid sh_integer size'
              then Exit 1 Invalid_size
            else if buffer \<noteq> [] \<and> buffer \<noteq> ''all'' \<and> \<not> logcat_ok buffer
              then Exit 1 Invalid_buffer
            else Validated (if size' = [] \<or> size' = ''256'' then None else Some size')
                           (if buffer = [] \<or> buffer = ''all'' then None else Some buffer)
                           clear)"
  unfolding logpersist_def Let_def assms by (auto simp only: parse_result.case if_True if_False refl not_False_eq_True not_True_eq_False option.sel option.distinct simp_thms eq_commute [of "''256''"] eq_commute [of "''all''"] split: if_splits)

text \<open>
  Claim C7, amended. The script exits with code 1 (\<^verbatim>\<open>Disabled\<close>) when the enable property is
  not \<^verbatim>\<open>true\<close>. With the property \<^verbatim>\<open>true\<close>: it exits with code 1 when the argument loop
  reaches an unrecognized argument, and with code 0 when it reaches \<^verbatim>\<open>-h\<close> or \<^verbatim>\<open>--help\<close>
  first, whatever the other arguments are. When the loop has consumed all arguments, the
  size and the buffer are the last ones given; the script exits with code 1 when the size is
  not empty, is not the default 256 and is not read by the shell as an integer in 1..2048,
  and, the size being accepted, when the buffer is not empty, is not \<^verbatim>\<open>all\<close> and is
  rejected by \<^verbatim>\<open>logcat -b\<close>. An empty size or the default 256 is unset and passes. An
  argument \<^verbatim>\<open>--size=v\<close> or \<^verbatim>\<open>--buffer=v\<close> after arguments that the loop consumes sets the
  size or the buffer to \<open>v\<close>, and an unrecognized argument after them ends the loop with
  the error.
\<close>

theorem logpersist_exit_codes:
  "(enable \<noteq> ''true'' \<longrightarrow> logpersist sh_integer logcat_ok enable args = Exit 1 Disabled) \<and>
   (parse_args ''256'' ''all'' False args = Bad_argument \<longrightarrow>
      logpersist sh_integer logcat_ok ''true'' args = Exit 1 Bad_argument_error) \<and>
   (parse_args ''256'' ''all'' False args = Help \<longrightarrow>
      logpersist sh_integer logcat_ok ''true'' args = Exit 0 Usage) \<and>
   (\<forall>size' buffer clear.
      parse_args ''256'' ''all'' False args = Parsed size' buffer clear \<longrightarrow>
        (size' \<noteq> [] \<and> size' \<noteq> ''256'' \<and>
         \<not> (\<exists>n. sh_integer size' = Some n \<and> 1 \<le> n \<and> n \<le> 2048) \<longrightarrow>
           logpersist sh_integer logcat_ok ''true'' args = Exit 1 Invalid_size) \<and>
        ((size' = [] \<or> size' = ''256'' \<or>
          (\<exists>n. sh_integer size' = Some n \<and> 1 \<le> n \<and> n \<le> 2048)) \<and>
         buffer \<noteq> [] \<and> buffer \<noteq> ''all'' \<and> \<not> logcat_ok buffer \<longrightarrow>
           logpersist sh_integer logcat_ok ''true'' args = Exit 1 Invalid_buffer) \<and>
        ((size' = [] \<or> size' = ''256'') \<and>
         (buffer = [] \<or> buffer = ''all'' \<or> logcat_ok buffer) \<longrightarrow>
           logpersist sh_integer logcat_ok ''true'' args =
             Validated None (if buffer = [] \<or> buffer = ''all'' then None else Some buffer)
               clear) \<and>
        parse_args ''256'' ''all'' False (args @ [''--size='' @ v]) = Parsed v buffer clear \<and>
        parse_args ''256'' ''all'' False (args @ [''--buffer='' @ v]) = Parsed size' v clear \<and>
        (\<not> recognized a \<longrightarrow>
           parse_args ''256'' ''all'' False (args @ a # rest) = Bad_argument))"
proof (intro conjI allI impI)
  assume "enable \<noteq> ''true''"
  then show "logpersist sh_integer logcat_ok enable args = Exit 1 Disabled"
    by (simp only: logpersist_def if_True not_False_eq_True)
next
  assume "parse_args ''256'' ''all'' False args = Bad_argument"
  then show "logpersist sh_integer logcat_ok ''true'' args = Exit 1 Bad_argument_error"
    by (simp only: logpersist_def Let_def parse_result.case refl not_True_eq_False if_False)
next
  assume "parse_args ''256'' ''all'' False args = Help"
  then show "logpersist sh_integer logcat_ok ''true'' args = Exit 0 Usage"
    by (simp only: logpersist_def Let_def parse_result.case refl not_True_eq_False if_False)
next
  fix size' buffer clear
  assume p: "parse_args ''256'' ''all'' False args = Parsed size' buffer clear"
  note lp = logpersist_Parsed [OF p, of sh_integer logcat_ok]
  {
    assume "size' \<noteq> [] \<and> size' \<noteq> ''256'' \<and>
         \<not> (\<exists>n. sh_integer size' = Some n \<and> 1 \<le> n \<and> n \<le> 2048)"
    then show "logpersist sh_integer logcat_ok ''true'' args = Exit 1 Invalid_size"
      by (simp add: lp size_valid_range)
  }
  {
    assume "(size' = [] \<or> size' = ''256'' \<or>
          (\<exists>n. sh_integer size' = Some n \<and> 1 \<le> n \<and> n \<le> 2048)) \<and>
         buffer \<noteq> [] \<and> buffer \<noteq> ''all'' \<and> \<not> logcat_ok buffer"
    then show "logpersist sh_integer logcat_ok ''true'' args = Exit 1 Invalid_buffer"
      by (auto simp: lp size_valid_range)
  }
  {
    assume "(size' = [] \<or> size' = ''256'') \<and>
               (buffer = [] \<or> buffer = ''all'' \<or> logcat_ok buffer)"
    then show "logpersist sh_integer logcat_ok ''true'' args =
             Validated None (if buffer = [] \<or> buffer = ''all'' then None else Some buffer)
               clear"
      by (auto simp: lp)
  }
  show "parse_args ''256'' ''all'' False (args @ [''--size='' @ v]) = Parsed v buffer clear"
    unfolding parse_args_append [OF p] parse_args_size by (simp only: parse_args.simps(1))
  show "parse_args ''256'' ''all'' False (args @ [''--buffer='' @ v]) = Parsed size' v clear"
    unfolding parse_args_append [OF p] parse_args_buffer by (simp only: parse_args.simps(1))
  assume "\<not> recognized a"
  then show "parse_args ''256'' ''all'' False (args @ a # rest) = Bad_argument"
    unfolding parse_args_append [OF p] by (rule parse_args_unrecognized)
qed

lemmas logpersist_eval =
  logpersist_def Let_def size_valid_def sh_example_def logcat_example_def

lemma logpersist_big_size:
  "logpersist sh_example logcat_example ''true'' [''--clear'', ''--size=4096''] =
     Exit 1 Invalid_size"
  by (simp add: logpersist_eval)

lemma logpersist_bogus_buffer:
  "logpersist sh_example logcat_example ''true'' [''--clear'', ''--buffer=bogus''] =
     Exit 1 Invalid_buffer"
  by (simp add: logpersist_eval)

lemma logpersist_bogus_argument:
  "logpersist sh_example logcat_example ''true'' [''--clear'', ''bogus'', ''--size=100''] =
     Exit 1 Bad_argument_error"
  by (simp add: logpersist_eval)

lemma logpersist_default_size:
  "logpersist sh_example logcat_example ''true'' [''--clear'', ''--size=256''] =
     Validated None None True"
  "logpersist sh_example logcat_example ''true'' [''--clear'', ''--size=''] =
     Validated None None True"
  "logpersist sh_example logcat_example ''true'' [''--size=100'', ''--buffer=main''] =
     Validated (Some ''100'') (Some ''main'') False"
  by (simp_all add: logpersist_eval)

lemma logpersist_help_first:
  "logpersist sh_example logcat_example ''true'' [''--size=abc'', ''--help''] = Exit 0 Usage"
  "logpersist sh_example logcat_example ''true'' [''--size=abc'', ''--size=100''] =
     Validated (Some ''100'') None False"
  by (simp_all add: logpersist_eval)

theorem logpersist_exit_codes_witness:
  "logpersist sh_example logcat_example ''false'' [''--clear''] = Exit 1 Disabled \<and>
   parse_args ''256'' ''all'' False [''--clear''] = Parsed ''256'' ''all'' True \<and>
   logpersist sh_example logcat_example ''true'' [''--clear'', ''--size=4096''] =
     Exit 1 Invalid_size \<and>
   sh_example ''4096'' = Some 4096 \<and>
   logpersist sh_example logcat_example ''true'' [''--clear'', ''--buffer=bogus''] =
     Exit 1 Invalid_buffer \<and>
   \<not> logcat_example ''bogus'' \<and>
   logpersist sh_example logcat_example ''true'' [''--clear'', ''bogus'', ''--size=100''] =
     Exit 1 Bad_argument_error \<and>
   \<not> recognized ''bogus'' \<and>
   logpersist sh_example logcat_example ''true'' [''--clear'', ''--size=256''] =
     Validated None None True \<and>
   logpersist sh_example logcat_example ''true'' [''--clear'', ''--size=''] =
     Validated None None True"
  using logpersist_exit_codes [of "''false''" sh_example logcat_example "[''--clear'']"
          "''4096''" "''bogus''" "[''--size=100'']"]
        logpersist_big_size logpersist_bogus_buffer logpersist_bogus_argument
        logpersist_default_size
  by (simp add: sh_example_def logcat_example_def recognized_def)

text \<open>
  The claim as stated fails: with \<^verbatim>\<open>--size=abc --help\<close> the script exits with code 0 although
  a size argument is not an integer, and with \<^verbatim>\<open>--size=abc --size=100\<close> the later size
  replaces the invalid one and validation passes.
\<close>

theorem logpersist_help_overrides_invalid_size:
  "logpersist sh_example logcat_example ''true'' [''--size=abc'', ''--help''] = Exit 0 Usage \<and>
   sh_example ''abc'' = None \<and>
   logpersist sh_example logcat_example ''true'' [''--size=abc'', ''--size=100''] =
     Validated (Some ''100'') None False"
  using logpersist_help_first by (simp add: sh_example_def)

section \<open>Properties of \<^verbatim>\<open>LogAudit::log\<close>\<close>



lemma cstr_nth: "i < length (cstr buf) \<Longrightarrow> cstr buf ! i = buf ! i"
  unfolding cstr_def by (rule takeWhile_nth)










end
